theory Spec2Isabelle
  imports Main "HOL-Library.Word"
begin

section \<open>Data model\<close>

text \<open>
  The two tables of \<^verbatim>\<open>prisma/migrations/20251227080422_add_folders/migration.sql\<close>.
  A table is the list of its rows. \<^verbatim>\<open>DATETIME\<close> columns hold a clock reading in
  milliseconds, \<^verbatim>\<open>TEXT\<close> columns a string, the nullable \<^verbatim>\<open>folderId\<close> an option.
  The columns \<^verbatim>\<open>id\<close> and \<^verbatim>\<open>size\<close> of \<^verbatim>\<open>File\<close> are called \<open>file_id\<close> and
  \<open>file_size\<close>, the columns of \<^verbatim>\<open>Folder\<close> carry the prefix \<open>folder_\<close>.
\<close>

text \<open>
  A string of the program is a sequence of UTF-16 code units; it is modelled by the bytes
  of its UTF-8 encoding, one \<open>char\<close> a byte. Every string that reaches the routes has
  one: form fields and file names come out of the UTF-8 decoder of the form-data parser.
  Concatenation, equality, emptiness, and \<^verbatim>\<open>startsWith\<close> and \<^verbatim>\<open>replace\<close> with the ASCII
  patterns of the routes are the same on the bytes as on the code units. A code unit of
  at most 255 is a code point of at most U+00FF, whose encoding is one byte below 0x80 or
  two bytes that start with 0xC2 or 0xC3; a code point above U+00FF starts with a byte of
  at least 0xC4. So a string has a code unit above 255 exactly when one of its bytes is
  0xC4 or more.
\<close>

type_synonym byte = "8 word"

record File =
  file_id :: string
  filename :: string
  originalName :: string
  mimeType :: string
  file_size :: nat
  path :: string
  shop :: string
  folderId :: "string option"
  createdAt :: nat
  updatedAt :: nat

record Folder =
  folder_id :: string
  folder_name :: string
  folder_shop :: string
  folder_createdAt :: nat
  folder_updatedAt :: nat

text \<open>
  The world an action runs in: the two tables, the files on disk (a map from a path to
  the bytes stored there) and whether the directory \<^verbatim>\<open>UPLOAD_DIR\<close> exists.
\<close>

record state =
  files :: "File list"
  folders :: "Folder list"
  blobs :: "string \<rightharpoonup> byte list"
  upload_dir :: bool

text \<open>
  What one request reads from its surroundings: \<^verbatim>\<open>Date.now()\<close>, the identifier the
  Prisma client generates for a created row, whether \<^verbatim>\<open>writeFile\<close> raises, for which
  paths \<^verbatim>\<open>unlink\<close> raises, and \<^verbatim>\<open>join(UPLOAD_DIR, _)\<close> (a function of Node's
  \<^verbatim>\<open>path\<close> module applied to \<^verbatim>\<open>process.cwd()\<close>, taken as a parameter).
\<close>

record env =
  now :: nat
  new_id :: string
  write_fails :: bool
  unlink_fails :: "string \<Rightarrow> bool"
  upload_path :: "string \<Rightarrow> string"

text \<open>
  A JavaScript \<^verbatim>\<open>File\<close> of the multipart body: \<^verbatim>\<open>file.name\<close>, \<^verbatim>\<open>file.type\<close> (the
  field \<open>mime\<close>) and the bytes of \<^verbatim>\<open>file.arrayBuffer()\<close>; \<^verbatim>\<open>file.size\<close> is the number
  of those bytes.
\<close>

record upload =
  name :: string
  mime :: string
  content :: "byte list"

definition size_of :: "upload \<Rightarrow> nat" where
  "size_of f = length (content f)"

text \<open>
  The form data of a request, one field for each key the action reads with
  \<^verbatim>\<open>formData.get\<close>; \<open>None\<close> is JavaScript's \<^verbatim>\<open>null\<close> for a missing key. The field
  \<open>get_file\<close> is \<open>None\<close> also when the entry is not a \<^verbatim>\<open>File\<close>. The fields
  \<open>get_itemIds\<close> and \<open>get_fileIds\<close> hold the array that \<^verbatim>\<open>JSON.parse\<close> returns for
  the entry, an array of strings as the page sends it (an entry that is no such array
  makes the action throw before it touches anything); \<open>None\<close> stands for a missing or
  empty entry.
\<close>

record form =
  get_intent :: "string option"
  get_name :: "string option"
  get_folderId :: "string option"
  get_fileId :: "string option"
  get_itemIds :: "string list option"
  get_fileIds :: "string list option"
  get_file :: "upload option"

text \<open>
  An action returns \<^verbatim>\<open>{ error }\<close> or \<^verbatim>\<open>{ success: true, ... }\<close>, or it throws: an
  exception is the \<open>Inl\<close> of a sum, with the state reached when it was raised.
\<close>

datatype fault = IOError | StoreError | TypeError | RangeError

datatype reply =
  ErrorReply string
  | SuccessReply
  | SuccessFolder Folder
  | SuccessFile File

type_synonym 'a result = "fault + 'a"

section \<open>Strings\<close>

text \<open>
  \<^verbatim>\<open>String(n)\<close> of a non-negative integer, as the template literal
  \<^verbatim>\<open>`${Date.now()}-${file.name}`\<close> and \<^verbatim>\<open>size.toString()\<close> compute it: the decimal
  digits, most significant first.
\<close>

definition digit_char :: "nat \<Rightarrow> char" where
  "digit_char d = ''0123456789'' ! d"

function toString :: "nat \<Rightarrow> string" where
  "toString n = (if n < 10 then [digit_char n] else toString (n div 10) @ [digit_char (n mod 10)])"
  by pat_completeness auto
termination
  by (relation "measure (\<lambda>n. n)") auto

declare toString.simps [simp del]

definition startsWith :: "string \<Rightarrow> string \<Rightarrow> bool" where
  "startsWith pat s = (take (length pat) s = pat)"

text \<open>
  \<^verbatim>\<open>s.replace(pat, rep)\<close> with a string pattern: the first occurrence of \<open>pat\<close> in
  \<open>s\<close> is replaced, wherever it is; a string without an occurrence is returned as it is.
\<close>

fun replace :: "string \<Rightarrow> string \<Rightarrow> string \<Rightarrow> string" where
  "replace pat rep [] = (if pat = [] then rep else [])"
| "replace pat rep (c # cs) =
     (if startsWith pat (c # cs) then rep @ drop (length pat) (c # cs)
      else c # replace pat rep cs)"

text \<open>
  \<^verbatim>\<open>s.trim()\<close> removes white space and line terminators at both ends: the code
  points U+0009 to U+000D, U+0020, U+00A0, U+1680, U+2000 to U+200A, U+2028, U+2029,
  U+202F, U+205F, U+3000 and U+FEFF, here in their UTF-8 encoding.
\<close>

definition white_space :: "string list" where
  "white_space =
     [[CHR 0x09], [CHR 0x0A], [CHR 0x0B], [CHR 0x0C], [CHR 0x0D], [CHR 0x20],
      [CHR 0xC2, CHR 0xA0], [CHR 0xE1, CHR 0x9A, CHR 0x80],
      [CHR 0xE2, CHR 0x80, CHR 0x80], [CHR 0xE2, CHR 0x80, CHR 0x81],
      [CHR 0xE2, CHR 0x80, CHR 0x82], [CHR 0xE2, CHR 0x80, CHR 0x83],
      [CHR 0xE2, CHR 0x80, CHR 0x84], [CHR 0xE2, CHR 0x80, CHR 0x85],
      [CHR 0xE2, CHR 0x80, CHR 0x86], [CHR 0xE2, CHR 0x80, CHR 0x87],
      [CHR 0xE2, CHR 0x80, CHR 0x88], [CHR 0xE2, CHR 0x80, CHR 0x89],
      [CHR 0xE2, CHR 0x80, CHR 0x8A], [CHR 0xE2, CHR 0x80, CHR 0xA8],
      [CHR 0xE2, CHR 0x80, CHR 0xA9], [CHR 0xE2, CHR 0x80, CHR 0xAF],
      [CHR 0xE2, CHR 0x81, CHR 0x9F], [CHR 0xE3, CHR 0x80, CHR 0x80],
      [CHR 0xEF, CHR 0xBB, CHR 0xBF]]"

text \<open>Removing at the start of \<open>s\<close>, as long as there is one, a sequence of \<open>ws\<close>.\<close>

function strip_leading :: "string list \<Rightarrow> string \<Rightarrow> string" where
  "strip_leading ws s =
     (case find (\<lambda>w. w \<noteq> [] \<and> startsWith w s) ws of
        None \<Rightarrow> s
      | Some w \<Rightarrow> strip_leading ws (drop (length w) s))"
  by pat_completeness auto
termination
proof (relation "measure (\<lambda>(ws, s). length s)")
  show "wf (measure (\<lambda>(ws, s). length s))" by simp
next
  fix ws :: "string list" and s w :: string
  assume "find (\<lambda>w. w \<noteq> [] \<and> startsWith w s) ws = Some w"
  then have "w \<noteq> []" and "take (length w) s = w"
    by (auto simp: find_Some_iff startsWith_def)
  then have "s \<noteq> []" by auto
  with \<open>w \<noteq> []\<close> show "((ws, drop (length w) s), (ws, s)) \<in> measure (\<lambda>(ws, s). length s)"
    by simp
qed

declare strip_leading.simps [simp del]

definition trim :: "string \<Rightarrow> string" where
  "trim s = rev (strip_leading (map rev white_space) (rev (strip_leading white_space s)))"

text \<open>\<^verbatim>\<open>formData.get("folderId")?.toString() || null\<close>: a missing and an empty entry
  both give \<^verbatim>\<open>null\<close>.\<close>

definition or_null :: "string option \<Rightarrow> string option" where
  "or_null v = (case v of None \<Rightarrow> None | Some s \<Rightarrow> if s = [] then None else Some s)"

section \<open>The blob store: \<^verbatim>\<open>app/files.server.js\<close>\<close>

definition ensureUploadDir :: "state \<Rightarrow> state" where
  "ensureUploadDir st = (if \<not> upload_dir st then st\<lparr>upload_dir := True\<rparr> else st)"

text \<open>\<^verbatim>\<open>writeFile\<close> raises when the environment says so and when the directory is missing.\<close>

definition writeFile :: "env \<Rightarrow> string \<Rightarrow> byte list \<Rightarrow> state \<Rightarrow> state result" where
  "writeFile e p buffer st =
     (if write_fails e \<or> \<not> upload_dir st then Inl IOError
      else Inr (st\<lparr>blobs := (blobs st)(p \<mapsto> buffer)\<rparr>))"

definition saveFile :: "env \<Rightarrow> upload \<Rightarrow> state \<Rightarrow> (string \<times> string) result \<times> state" where
  "saveFile e f st =
     (let st1 = ensureUploadDir st;
          filename = toString (now e) @ ''-'' @ name f;
          filePath = upload_path e filename
      in case writeFile e filePath (content f) st1 of
           Inl err \<Rightarrow> (Inl err, st1)
         | Inr st2 \<Rightarrow> (Inr (filename, filePath), st2))"

definition existsSync :: "state \<Rightarrow> string \<Rightarrow> bool" where
  "existsSync st p = (blobs st p \<noteq> None)"

definition unlink :: "env \<Rightarrow> string \<Rightarrow> state \<Rightarrow> state result" where
  "unlink e p st =
     (if unlink_fails e p then Inl IOError else Inr (st\<lparr>blobs := (blobs st)(p := None)\<rparr>))"

definition deleteFile :: "env \<Rightarrow> string \<Rightarrow> state \<Rightarrow> state result" where
  "deleteFile e p st = (if existsSync st p then unlink e p st else Inr st)"

text \<open>\<^verbatim>\<open>readFile\<close> of a path that \<^verbatim>\<open>existsSync\<close> has confirmed returns the bytes stored
  there; a missing path raises.\<close>

definition readFileBuffer :: "state \<Rightarrow> string \<Rightarrow> byte list result" where
  "readFileBuffer st p = (case blobs st p of None \<Rightarrow> Inl IOError | Some b \<Rightarrow> Inr b)"

section \<open>The metadata store\<close>

text \<open>
  The Prisma calls of the routes, on the tables of the migration. The constraints are
  those of \<^verbatim>\<open>migration.sql\<close>: \<^verbatim>\<open>id\<close> is the primary key of each table, and
  \<^verbatim>\<open>File_folderId_fkey\<close> makes a non-null \<^verbatim>\<open>folderId\<close> refer to a row of
  \<^verbatim>\<open>Folder\<close>, \<^verbatim>\<open>ON DELETE CASCADE\<close>. A call that violates a constraint, and an
  \<^verbatim>\<open>update\<close> or \<^verbatim>\<open>delete\<close> whose \<^verbatim>\<open>where\<close> matches no row, raises and leaves the
  tables as they were. The tables declare \<^verbatim>\<open>id\<close> and \<^verbatim>\<open>updatedAt\<close> without a default:
  the client supplies the identifier (\<open>new_id\<close>) and the time of the write.
\<close>

definition file_findFirst :: "state \<Rightarrow> string \<Rightarrow> string \<Rightarrow> File option" where
  "file_findFirst st i s = find (\<lambda>f. file_id f = i \<and> shop f = s) (files st)"

definition folder_findFirst :: "state \<Rightarrow> string \<Rightarrow> string \<Rightarrow> Folder option" where
  "folder_findFirst st i s = find (\<lambda>g. folder_id g = i \<and> folder_shop g = s) (folders st)"

text \<open>\<^verbatim>\<open>include: { files: true }\<close>: the rows of \<^verbatim>\<open>File\<close> that refer to the folder.\<close>

definition files_of :: "state \<Rightarrow> Folder \<Rightarrow> File list" where
  "files_of st g = filter (\<lambda>f. folderId f = Some (folder_id g)) (files st)"

definition folder_exists :: "state \<Rightarrow> string \<Rightarrow> bool" where
  "folder_exists st i = (i \<in> set (map folder_id (folders st)))"

definition file_exists :: "state \<Rightarrow> string \<Rightarrow> bool" where
  "file_exists st i = (i \<in> set (map file_id (files st)))"

definition fkey_ok :: "state \<Rightarrow> string option \<Rightarrow> bool" where
  "fkey_ok st fo = (case fo of None \<Rightarrow> True | Some g \<Rightarrow> folder_exists st g)"

definition folder_create :: "env \<Rightarrow> string \<Rightarrow> string \<Rightarrow> state \<Rightarrow> (Folder \<times> state) result" where
  "folder_create e nm s st =
     (if folder_exists st (new_id e) then Inl StoreError
      else let g = \<lparr>folder_id = new_id e, folder_name = nm, folder_shop = s,
                     folder_createdAt = now e, folder_updatedAt = now e\<rparr>
           in Inr (g, st\<lparr>folders := folders st @ [g]\<rparr>))"

definition file_create ::
  "env \<Rightarrow> string \<Rightarrow> string \<Rightarrow> string \<Rightarrow> nat \<Rightarrow> string \<Rightarrow> string \<Rightarrow> string option \<Rightarrow> state
    \<Rightarrow> (File \<times> state) result" where
  "file_create e fn orig mt sz p s fo st =
     (if file_exists st (new_id e) \<or> \<not> fkey_ok st fo then Inl StoreError
      else let f = \<lparr>file_id = new_id e, filename = fn, originalName = orig, mimeType = mt,
                     file_size = sz, path = p, shop = s, folderId = fo,
                     createdAt = now e, updatedAt = now e\<rparr>
           in Inr (f, st\<lparr>files := files st @ [f]\<rparr>))"

text \<open>\<^verbatim>\<open>prisma.file.update({ where: { id }, data: { folderId } })\<close>\<close>

definition file_update :: "env \<Rightarrow> string \<Rightarrow> string option \<Rightarrow> state \<Rightarrow> state result" where
  "file_update e i fo st =
     (if \<not> file_exists st i \<or> \<not> fkey_ok st fo then Inl StoreError
      else Inr (st\<lparr>files :=
             map (\<lambda>f. if file_id f = i then f\<lparr>folderId := fo, updatedAt := now e\<rparr> else f)
               (files st)\<rparr>))"

text \<open>\<^verbatim>\<open>prisma.file.delete({ where: { id } })\<close>\<close>

definition file_delete :: "string \<Rightarrow> state \<Rightarrow> state result" where
  "file_delete i st =
     (if \<not> file_exists st i then Inl StoreError
      else Inr (st\<lparr>files := filter (\<lambda>f. file_id f \<noteq> i) (files st)\<rparr>))"

text \<open>\<^verbatim>\<open>prisma.folder.delete({ where: { id } })\<close>: the rows of \<^verbatim>\<open>File\<close> that refer to the
  folder go with it.\<close>

definition folder_delete :: "string \<Rightarrow> state \<Rightarrow> state result" where
  "folder_delete i st =
     (if \<not> folder_exists st i then Inl StoreError
      else Inr (st\<lparr>folders := filter (\<lambda>g. folder_id g \<noteq> i) (folders st),
                    files := filter (\<lambda>f. folderId f \<noteq> Some i) (files st)\<rparr>))"

section \<open>The action of the files route\<close>

text \<open>
  The \<^verbatim>\<open>action\<close> of the files route in its latest form, the one with the bulk intents;
  the earlier forms of the route have the same code for the intents they know. The tenant
  \<open>s\<close> is \<^verbatim>\<open>session.shop\<close> of the authenticated request. Each branch
  \<^verbatim>\<open>if (intent === ...)\<close> is a definition of its own, named after the intent, and
  \<open>action\<close> below chooses among them.
\<close>

text \<open>
  The loop of \<^verbatim>\<open>delete-folder\<close> and of the folder part of \<^verbatim>\<open>bulk-delete\<close>:
  \<^verbatim>\<open>for (const file of folder.files) { try { await deleteFile(file.path) } catch ... }\<close>.
\<close>

fun delete_blobs :: "env \<Rightarrow> File list \<Rightarrow> state \<Rightarrow> state" where
  "delete_blobs e [] st = st"
| "delete_blobs e (f # fs) st =
     (case deleteFile e (path f) st of
        Inl err \<Rightarrow> delete_blobs e fs st
      | Inr st1 \<Rightarrow> delete_blobs e fs st1)"

definition create_folder :: "env \<Rightarrow> string \<Rightarrow> form \<Rightarrow> state \<Rightarrow> reply result \<times> state" where
  "create_folder e s fd st =
     (case get_name fd of
        None \<Rightarrow> (Inr (ErrorReply ''Folder name is required''), st)
      | Some raw \<Rightarrow>
          (let nm = trim raw
           in if nm = [] then (Inr (ErrorReply ''Folder name is required''), st)
              else case folder_create e nm s st of
                     Inl err \<Rightarrow> (Inl err, st)
                   | Inr (g, st1) \<Rightarrow> (Inr (SuccessFolder g), st1)))"

definition delete_folder :: "env \<Rightarrow> string \<Rightarrow> form \<Rightarrow> state \<Rightarrow> reply result \<times> state" where
  "delete_folder e s fd st =
     (case get_folderId fd of
        None \<Rightarrow> (Inr (ErrorReply ''No folder ID provided''), st)
      | Some i \<Rightarrow>
          if i = [] then (Inr (ErrorReply ''No folder ID provided''), st)
          else (case folder_findFirst st i s of
                  None \<Rightarrow> (Inr (ErrorReply ''Folder not found''), st)
                | Some g \<Rightarrow>
                    (let st1 = delete_blobs e (files_of st g) st
                     in case folder_delete i st1 of
                          Inl err \<Rightarrow> (Inl err, st1)
                        | Inr st2 \<Rightarrow> (Inr SuccessReply, st2))))"

definition upload_file :: "env \<Rightarrow> string \<Rightarrow> form \<Rightarrow> state \<Rightarrow> reply result \<times> state" where
  "upload_file e s fd st =
     (case get_file fd of
        None \<Rightarrow> (Inr (ErrorReply ''No file provided''), st)
      | Some f \<Rightarrow>
          (let fo = or_null (get_folderId fd)
           in case saveFile e f st of
                (Inl err, st1) \<Rightarrow> (Inl err, st1)
              | (Inr (fn, filePath), st1) \<Rightarrow>
                  (case file_create e fn (name f)
                          (if mime f = [] then ''application/octet-stream'' else mime f)
                          (size_of f) filePath s (or_null fo) st1 of
                     Inl err \<Rightarrow> (Inl err, st1)
                   | Inr (r, st2) \<Rightarrow> (Inr (SuccessFile r), st2))))"

definition delete_file :: "env \<Rightarrow> string \<Rightarrow> form \<Rightarrow> state \<Rightarrow> reply result \<times> state" where
  "delete_file e s fd st =
     (case get_fileId fd of
        None \<Rightarrow> (Inr (ErrorReply ''No file ID provided''), st)
      | Some i \<Rightarrow>
          if i = [] then (Inr (ErrorReply ''No file ID provided''), st)
          else (case file_findFirst st i s of
                  None \<Rightarrow> (Inr (ErrorReply ''File not found''), st)
                | Some r \<Rightarrow>
                    (let st1 = (case deleteFile e (path r) st of Inl err \<Rightarrow> st | Inr st' \<Rightarrow> st')
                     in case file_delete i st1 of
                          Inl err \<Rightarrow> (Inl err, st1)
                        | Inr st2 \<Rightarrow> (Inr SuccessReply, st2))))"

text \<open>
  The first loop of \<^verbatim>\<open>bulk-delete\<close>. The \<^verbatim>\<open>try\<close> block holds both
  \<^verbatim>\<open>deleteFile(fileRecord.path)\<close> and \<^verbatim>\<open>prisma.file.delete\<close>: an exception of the
  first skips the second, and the \<^verbatim>\<open>catch\<close> goes on with the next identifier.
\<close>

fun bulk_delete_files :: "env \<Rightarrow> string \<Rightarrow> string list \<Rightarrow> state \<Rightarrow> state" where
  "bulk_delete_files e s [] st = st"
| "bulk_delete_files e s (x # xs) st =
     (let fileId = replace ''file-'' [] x
      in case file_findFirst st fileId s of
           None \<Rightarrow> bulk_delete_files e s xs st
         | Some r \<Rightarrow>
             (case deleteFile e (path r) st of
                Inl err \<Rightarrow> bulk_delete_files e s xs st
              | Inr st1 \<Rightarrow>
                  (case file_delete fileId st1 of
                     Inl err \<Rightarrow> bulk_delete_files e s xs st1
                   | Inr st2 \<Rightarrow> bulk_delete_files e s xs st2)))"

text \<open>The second loop of \<^verbatim>\<open>bulk-delete\<close>; \<^verbatim>\<open>prisma.folder.delete\<close> is outside any
  \<^verbatim>\<open>try\<close>, so an exception of it ends the action.\<close>

fun bulk_delete_folders :: "env \<Rightarrow> string \<Rightarrow> string list \<Rightarrow> state \<Rightarrow> fault option \<times> state" where
  "bulk_delete_folders e s [] st = (None, st)"
| "bulk_delete_folders e s (x # xs) st =
     (let i = replace ''folder-'' [] x
      in case folder_findFirst st i s of
           None \<Rightarrow> bulk_delete_folders e s xs st
         | Some g \<Rightarrow>
             (let st1 = delete_blobs e (files_of st g) st
              in case folder_delete i st1 of
                   Inl err \<Rightarrow> (Some err, st1)
                 | Inr st2 \<Rightarrow> bulk_delete_folders e s xs st2))"

definition bulk_delete :: "env \<Rightarrow> string \<Rightarrow> form \<Rightarrow> state \<Rightarrow> reply result \<times> state" where
  "bulk_delete e s fd st =
     (case get_itemIds fd of
        None \<Rightarrow> (Inr (ErrorReply ''No items provided''), st)
      | Some ids \<Rightarrow>
          (let fileIds = filter (startsWith ''file-'') ids;
               folderIds = filter (startsWith ''folder-'') ids;
               st1 = bulk_delete_files e s fileIds st
           in case bulk_delete_folders e s folderIds st1 of
                (Some err, st2) \<Rightarrow> (Inl err, st2)
              | (None, st2) \<Rightarrow> (Inr SuccessReply, st2)))"

definition move_file :: "env \<Rightarrow> string \<Rightarrow> form \<Rightarrow> state \<Rightarrow> reply result \<times> state" where
  "move_file e s fd st =
     (let fo = or_null (get_folderId fd)
      in case get_fileId fd of
           None \<Rightarrow> (Inr (ErrorReply ''No file ID provided''), st)
         | Some i \<Rightarrow>
             if i = [] then (Inr (ErrorReply ''No file ID provided''), st)
             else (case file_findFirst st i s of
                     None \<Rightarrow> (Inr (ErrorReply ''File not found''), st)
                   | Some r \<Rightarrow>
                       (case file_update e i fo st of
                          Inl err \<Rightarrow> (Inl err, st)
                        | Inr st1 \<Rightarrow> (Inr SuccessReply, st1))))"

text \<open>The loop of \<^verbatim>\<open>bulk-move\<close>: \<^verbatim>\<open>prisma.file.update({ where: { id: fileId }, ... })\<close>
  for each identifier, with no \<^verbatim>\<open>findFirst\<close> before it and no \<^verbatim>\<open>try\<close> around it.\<close>

fun bulk_move_files :: "env \<Rightarrow> string option \<Rightarrow> string list \<Rightarrow> state \<Rightarrow> fault option \<times> state" where
  "bulk_move_files e fo [] st = (None, st)"
| "bulk_move_files e fo (x # xs) st =
     (let fileId = replace ''file-'' [] x
      in case file_update e fileId fo st of
           Inl err \<Rightarrow> (Some err, st)
         | Inr st1 \<Rightarrow> bulk_move_files e fo xs st1)"

definition bulk_move :: "env \<Rightarrow> string \<Rightarrow> form \<Rightarrow> state \<Rightarrow> reply result \<times> state" where
  "bulk_move e s fd st =
     (let fo = or_null (get_folderId fd)
      in case get_fileIds fd of
           None \<Rightarrow> (Inr (ErrorReply ''No files provided''), st)
         | Some ids \<Rightarrow>
             (case bulk_move_files e fo ids st of
                (Some err, st1) \<Rightarrow> (Inl err, st1)
              | (None, st1) \<Rightarrow> (Inr SuccessReply, st1)))"

text \<open>\<^verbatim>\<open>action\<close>: \<^verbatim>\<open>ensureUploadDir\<close> runs before the intent is read.\<close>

definition action :: "env \<Rightarrow> string \<Rightarrow> form \<Rightarrow> state \<Rightarrow> reply result \<times> state" where
  "action e s fd st =
     (let st0 = ensureUploadDir st; intent = get_intent fd
      in if intent = Some ''create-folder'' then create_folder e s fd st0
         else if intent = Some ''delete-folder'' then delete_folder e s fd st0
         else if intent = Some ''upload'' then upload_file e s fd st0
         else if intent = Some ''delete'' then delete_file e s fd st0
         else if intent = Some ''bulk-delete'' then bulk_delete e s fd st0
         else if intent = Some ''move-file'' then move_file e s fd st0
         else if intent = Some ''bulk-move'' then bulk_move e s fd st0
         else (Inr (ErrorReply ''Invalid intent''), st0))"

section \<open>The loader of the download route\<close>

text \<open>
  The loader answers not found by throwing a \<^verbatim>\<open>Response\<close> with status 404, which the
  framework sends as the response: a thrown and a returned \<^verbatim>\<open>Response\<close> are both
  \<open>Inr\<close>.
\<close>

datatype body = TextBody string | BufferBody "byte list"

record response =
  status :: nat
  payload :: body
  headers :: "(string \<times> string) list"

text \<open>
  \<^verbatim>\<open>new Response(body, init)\<close>, as the platform builds it. The names and values of
  \<^verbatim>\<open>init.headers\<close> are converted to byte strings, and a code unit above 255 is a
  \<^verbatim>\<open>TypeError\<close>. Each value is then normalised (HTTP white space is removed at both
  ends); the name must be a token and the value a header value, or it is a
  \<^verbatim>\<open>TypeError\<close> again. The header list keeps each pair under its name (the names of
  the loader are three different ones; the values of one name would be joined). A status
  outside 200 to 599 is a \<^verbatim>\<open>RangeError\<close>, and a body with a null body status a
  \<^verbatim>\<open>TypeError\<close>. A body that is a string brings its type as \<^verbatim>\<open>content-type\<close> unless
  the headers have one; a buffer brings none.
\<close>

definition ByteString :: "string \<Rightarrow> string result" where
  "ByteString x = (if list_all (\<lambda>c. (of_char c :: nat) < 0xC4) x then Inr x else Inl TypeError)"

definition isHTTPWhiteSpaceCharCode :: "char \<Rightarrow> bool" where
  "isHTTPWhiteSpaceCharCode c = (c = CHR 0x0A \<or> c = CHR 0x0D \<or> c = CHR 0x09 \<or> c = CHR 0x20)"

definition headerValueNormalize :: "string \<Rightarrow> string" where
  "headerValueNormalize v =
     rev (dropWhile isHTTPWhiteSpaceCharCode (rev (dropWhile isHTTPWhiteSpaceCharCode v)))"

definition isValidHeaderValue :: "string \<Rightarrow> bool" where
  "isValidHeaderValue v =
     (\<not> ((case v of [] \<Rightarrow> False | c # cs \<Rightarrow> c = CHR 0x09 \<or> c = CHR 0x20) \<or>
         (v \<noteq> [] \<and> (last v = CHR 0x09 \<or> last v = CHR 0x20)) \<or>
         CHR 0x0A \<in> set v \<or> CHR 0x0D \<in> set v \<or> CHR 0x00 \<in> set v))"

definition isTokenCharCode :: "char \<Rightarrow> bool" where
  "isTokenCharCode c =
     (c \<notin> set [CHR 0x22, CHR 0x28, CHR 0x29, CHR 0x2C, CHR 0x2F, CHR 0x3A, CHR 0x3B, CHR 0x3C,
                 CHR 0x3D, CHR 0x3E, CHR 0x3F, CHR 0x40, CHR 0x5B, CHR 0x5C, CHR 0x5D, CHR 0x7B,
                 CHR 0x7D] \<and>
      (0x21 :: nat) \<le> of_char c \<and> (of_char c :: nat) \<le> 0x7E)"

definition isValidHTTPToken :: "string \<Rightarrow> bool" where
  "isValidHTTPToken characters = (characters \<noteq> [] \<and> list_all isTokenCharCode characters)"

definition appendHeader :: "string \<times> string \<Rightarrow> (string \<times> string) result" where
  "appendHeader h =
     (case ByteString (fst h) of
        Inl err \<Rightarrow> Inl err
      | Inr n \<Rightarrow>
          (case ByteString (snd h) of
             Inl err \<Rightarrow> Inl err
           | Inr x \<Rightarrow>
               (let v = headerValueNormalize x
                in if \<not> isValidHTTPToken n then Inl TypeError
                   else if \<not> isValidHeaderValue v then Inl TypeError
                   else Inr (n, v))))"

text \<open>\<^verbatim>\<open>name.toLowerCase()\<close> of a header name, a token and so ASCII.\<close>

definition toLowerCase :: "string \<Rightarrow> string" where
  "toLowerCase s =
     map (\<lambda>c. if (0x41 :: nat) \<le> of_char c \<and> (of_char c :: nat) \<le> 0x5A
              then char_of (of_char c + (32 :: nat)) else c) s"

fun fill :: "(string \<times> string) list \<Rightarrow> (string \<times> string) list result" where
  "fill [] = Inr []"
| "fill (h # hs) =
     (case appendHeader h of
        Inl err \<Rightarrow> Inl err
      | Inr x \<Rightarrow> (case fill hs of Inl err \<Rightarrow> Inl err | Inr xs \<Rightarrow> Inr (x # xs)))"

definition new_Response :: "body \<Rightarrow> nat \<Rightarrow> (string \<times> string) list option \<Rightarrow> response result" where
  "new_Response b st hs =
     (if st < 200 \<or> 599 < st then Inl RangeError
      else case fill (case hs of None \<Rightarrow> [] | Some xs \<Rightarrow> xs) of
             Inl err \<Rightarrow> Inl err
           | Inr hl \<Rightarrow>
               if st \<in> set [204, 205, 304] then Inl TypeError
               else Inr \<lparr>status = st, payload = b,
                         headers =
                           (case b of
                              TextBody t \<Rightarrow>
                                if list_ex (\<lambda>h. toLowerCase (fst h) = ''content-type'') hl then hl
                                else hl @ [(''content-type'', ''text/plain;charset=UTF-8'')]
                            | BufferBody bs \<Rightarrow> hl)\<rparr>)"

definition loader_download :: "string \<Rightarrow> string \<Rightarrow> state \<Rightarrow> response result" where
  "loader_download s i st =
     (case file_findFirst st i s of
        None \<Rightarrow> new_Response (TextBody ''File not found'') 404 None
      | Some r \<Rightarrow>
          if \<not> existsSync st (path r)
          then new_Response (TextBody ''File not found on disk'') 404 None
          else (case readFileBuffer st (path r) of
                  Inl err \<Rightarrow> Inl err
                | Inr fileBuffer \<Rightarrow>
                    new_Response (BufferBody fileBuffer) 200
                      (Some [(''Content-Type'', mimeType r),
                             (''Content-Disposition'',
                                ''attachment; filename='' @ [CHR 0x22] @ originalName r @ [CHR 0x22]),
                             (''Content-Length'', toString (file_size r))])))"


text \<open>
  The values that \<^verbatim>\<open>new Response\<close> takes as they are: \<open>header_safe\<close> has no code
  unit above 255 and no NUL, LF or CR; \<open>plain_ends\<close> has no tab or space at either end.
\<close>

definition header_safe :: "string \<Rightarrow> bool" where
  "header_safe v =
     list_all (\<lambda>c. (of_char c :: nat) < 0xC4 \<and> c \<noteq> CHR 0x00 \<and> c \<noteq> CHR 0x0A \<and> c \<noteq> CHR 0x0D) v"

definition plain_ends :: "string \<Rightarrow> bool" where
  "plain_ends v =
     (v = [] \<or> (hd v \<noteq> CHR 0x09 \<and> hd v \<noteq> CHR 0x20 \<and> last v \<noteq> CHR 0x09 \<and> last v \<noteq> CHR 0x20))"

section \<open>Invariants of the tables\<close>

text \<open>The primary keys: no two rows of a table have the same \<^verbatim>\<open>id\<close>.\<close>

definition pkey_ok :: "state \<Rightarrow> bool" where
  "pkey_ok st = (distinct (map file_id (files st)) \<and> distinct (map folder_id (folders st)))"

text \<open>The foreign key: a non-null \<^verbatim>\<open>folderId\<close> is the \<^verbatim>\<open>id\<close> of a row of
  \<^verbatim>\<open>Folder\<close>.\<close>

definition fk_ok :: "state \<Rightarrow> bool" where
  "fk_ok st = list_all (\<lambda>f. fkey_ok st (folderId f)) (files st)"

text \<open>The folder of every file is a folder of the file's tenant.\<close>

definition same_tenant :: "state \<Rightarrow> bool" where
  "same_tenant st =
     list_all (\<lambda>f. case folderId f of
                     None \<Rightarrow> True
                   | Some i \<Rightarrow> list_ex (\<lambda>g. folder_id g = i \<and> folder_shop g = shop f) (folders st))
       (files st)"



text \<open>Two rows that agree on every column but \<^verbatim>\<open>folderId\<close> and \<^verbatim>\<open>updatedAt\<close>.\<close>

definition same_but_folder :: "File \<Rightarrow> File \<Rightarrow> bool" where
  "same_but_folder f g =
     (file_id g = file_id f \<and> filename g = filename f \<and> originalName g = originalName f \<and>
      mimeType g = mimeType f \<and> file_size g = file_size f \<and> path g = path f \<and>
      shop g = shop f \<and> createdAt g = createdAt f)"

text \<open>The value of a decimal digit, to read \<open>toString\<close> back.\<close>

definition digit_val :: "char \<Rightarrow> nat" where
  "digit_val c = of_char c - 48"

definition read_nat :: "string \<Rightarrow> nat" where
  "read_nat s = foldl (\<lambda>a c. 10 * a + digit_val c) 0 s"

text \<open>
  The operations that change the tables, and a step that leaves both tables as they are
  (the work on the disk). Every action is a sequence of these.
\<close>

inductive store_step :: "state \<Rightarrow> state \<Rightarrow> bool" where
  frame: "files sb = files sa \<Longrightarrow> folders sb = folders sa \<Longrightarrow> store_step sa sb"
| file_deleted: "file_delete i sa = Inr sb \<Longrightarrow> store_step sa sb"
| folder_deleted: "folder_delete i sa = Inr sb \<Longrightarrow> store_step sa sb"
| file_updated: "file_update e i fo sa = Inr sb \<Longrightarrow> store_step sa sb"
| file_created: "file_create e fn orig mt sz p s fo sa = Inr (r, sb) \<Longrightarrow> store_step sa sb"
| folder_created: "folder_create e nm s sa = Inr (g, sb) \<Longrightarrow> store_step sa sb"

section \<open>A concrete scenario\<close>

text \<open>
  Tenant \<^verbatim>\<open>shop-1\<close> owns the folder \<^verbatim>\<open>F1\<close> and, in it, the file \<^verbatim>\<open>X1\<close>, whose three
  bytes are on disk; \<^verbatim>\<open>shop-2\<close> owns nothing.
\<close>

definition F1 :: Folder where
  "F1 = \<lparr>folder_id = ''F1'', folder_name = ''Invoices'', folder_shop = ''shop-1'',
          folder_createdAt = 1, folder_updatedAt = 1\<rparr>"

definition pdf_bytes :: "byte list" where
  "pdf_bytes = [0x25, 0x50, 0x44]"

definition X1 :: File where
  "X1 = \<lparr>file_id = ''X1'', filename = ''2-invoice.pdf'', originalName = ''invoice.pdf'',
          mimeType = ''application/pdf'', file_size = 3, path = ''/app/uploads/2-invoice.pdf'',
          shop = ''shop-1'', folderId = Some ''F1'', createdAt = 2, updatedAt = 2\<rparr>"

definition state1 :: state where
  "state1 = \<lparr>files = [X1], folders = [F1],
           blobs = [''/app/uploads/2-invoice.pdf'' \<mapsto> pdf_bytes], upload_dir = True\<rparr>"

definition env1 :: env where
  "env1 = \<lparr>now = 5, new_id = ''X2'', write_fails = False, unlink_fails = (\<lambda>p. False),
            upload_path = (\<lambda>n. ''/app/uploads/'' @ n)\<rparr>"

definition no_form :: form where
  "no_form = \<lparr>get_intent = None, get_name = None, get_folderId = None, get_fileId = None,
               get_itemIds = None, get_fileIds = None, get_file = None\<rparr>"

definition notes_txt :: upload where
  "notes_txt = \<lparr>name = ''notes.txt'', mime = [], content = [0x68, 0x69]\<rparr>"

text \<open>The row that \<^verbatim>\<open>shop-1\<close> gets for an upload of \<open>notes_txt\<close> at root.\<close>

definition X2 :: File where
  "X2 = \<lparr>file_id = ''X2'', filename = ''5-notes.txt'', originalName = ''notes.txt'',
          mimeType = ''application/octet-stream'', file_size = 2,
          path = ''/app/uploads/5-notes.txt'', shop = ''shop-1'', folderId = None,
          createdAt = 5, updatedAt = 5\<rparr>"






section \<open>Evaluation and frame lemmas\<close>

lemmas model_defs = action_def create_folder_def delete_folder_def upload_file_def delete_file_def
  bulk_delete_def move_file_def bulk_move_def or_null_def ensureUploadDir_def saveFile_def
  writeFile_def deleteFile_def unlink_def existsSync_def file_findFirst_def folder_findFirst_def
  files_of_def folder_exists_def file_exists_def fkey_ok_def folder_create_def file_create_def
  file_update_def file_delete_def folder_delete_def size_of_def startsWith_def digit_char_def
  Let_def

lemmas scenario_defs = F1_def X1_def X2_def state1_def env1_def no_form_def notes_txt_def
  pdf_bytes_def

lemma or_null_empty: "or_null (Some []) = None" "or_null None = None"
  by (simp_all add: or_null_def)

lemma ensureUploadDir_frame:
  "files (ensureUploadDir st) = files st" "folders (ensureUploadDir st) = folders st"
  "blobs (ensureUploadDir st) = blobs st" "upload_dir (ensureUploadDir st)"
  by (simp_all add: ensureUploadDir_def)



lemma deleteFile_frame:
  assumes "deleteFile e p st = Inr st'"
  shows "files st' = files st" "folders st' = folders st" "upload_dir st' = upload_dir st"
  using assms by (auto simp: deleteFile_def unlink_def split: if_splits)

lemma delete_blobs_frame:
  "files (delete_blobs e fs st) = files st \<and> folders (delete_blobs e fs st) = folders st
   \<and> upload_dir (delete_blobs e fs st) = upload_dir st"
proof (induction fs arbitrary: st)
  case Nil
  show ?case by simp
next
  case (Cons f fs)
  show ?case
  proof (cases "deleteFile e (path f) st")
    case (Inl err)
    with Cons show ?thesis by simp
  next
    case (Inr st1)
    with Cons[of st1] deleteFile_frame[OF Inr] show ?thesis by simp
  qed
qed

lemma file_update_Inr:
  "file_update e i fo st = Inr st' \<Longrightarrow>
   st' = st\<lparr>files := map (\<lambda>f. if file_id f = i then f\<lparr>folderId := fo, updatedAt := now e\<rparr> else f) (files st)\<rparr>"
  by (simp add: file_update_def split: if_splits)

lemma file_update_files:
  "file_update e i fo st = Inr st' \<Longrightarrow>
   files st' = map (\<lambda>f. if file_id f = i then f\<lparr>folderId := fo, updatedAt := now e\<rparr> else f) (files st)"
  by (drule file_update_Inr) simp

lemma file_update_frame:
  assumes "file_update e i fo st = Inr st'"
  shows "folders st' = folders st" "blobs st' = blobs st" "upload_dir st' = upload_dir st"
  using file_update_Inr[OF assms] by simp_all

lemma file_update_keeps:
  assumes u: "file_update e i fo st = Inr st'"
    and old: "\<forall>f\<in>set (files st). file_id f \<in> A \<longrightarrow> folderId f = fo"
  shows "\<forall>f\<in>set (files st'). file_id f \<in> insert i A \<longrightarrow> folderId f = fo"
proof (intro ballI impI)
  fix f assume f: "f \<in> set (files st')" and m: "file_id f \<in> insert i A"
  from f file_update_files[OF u]
  obtain g where g: "g \<in> set (files st)"
    and fg: "f = (if file_id g = i then g\<lparr>folderId := fo, updatedAt := now e\<rparr> else g)"
    by auto
  show "folderId f = fo"
  proof (cases "file_id g = i")
    case True
    with fg show ?thesis by simp
  next
    case False
    with fg have "f = g" by simp
    with False m g old show ?thesis by simp
  qed
qed

lemma bulk_move_files_sets:
  "bulk_move_files e fo xs st = (None, st') \<Longrightarrow>
   \<forall>f\<in>set (files st). file_id f \<in> A \<longrightarrow> folderId f = fo \<Longrightarrow>
   \<forall>f\<in>set (files st'). file_id f \<in> A \<union> replace ''file-'' [] ` set xs \<longrightarrow> folderId f = fo"
proof (induction xs arbitrary: st A)
  case Nil
  then show ?case by simp
next
  case (Cons x xs)
  let ?i = "replace ''file-'' [] x"
  from Cons.prems(1) obtain st1 where u: "file_update e ?i fo st = Inr st1"
    and r: "bulk_move_files e fo xs st1 = (None, st')"
    by (cases "file_update e ?i fo st") (simp_all add: Let_def)
  from file_update_keeps[OF u Cons.prems(2)]
  have "\<forall>f\<in>set (files st1). file_id f \<in> insert ?i A \<longrightarrow> folderId f = fo" .
  from Cons.IH[OF r this] show ?case by simp
qed

lemma intents_empty_eq:
  "create_folder e s (fd\<lparr>get_folderId := Some []\<rparr>) st = create_folder e s (fd\<lparr>get_folderId := None\<rparr>) st"
  "delete_folder e s (fd\<lparr>get_folderId := Some []\<rparr>) st = delete_folder e s (fd\<lparr>get_folderId := None\<rparr>) st"
  "upload_file e s (fd\<lparr>get_folderId := Some []\<rparr>) st = upload_file e s (fd\<lparr>get_folderId := None\<rparr>) st"
  "delete_file e s (fd\<lparr>get_folderId := Some []\<rparr>) st = delete_file e s (fd\<lparr>get_folderId := None\<rparr>) st"
  "bulk_delete e s (fd\<lparr>get_folderId := Some []\<rparr>) st = bulk_delete e s (fd\<lparr>get_folderId := None\<rparr>) st"
  "move_file e s (fd\<lparr>get_folderId := Some []\<rparr>) st = move_file e s (fd\<lparr>get_folderId := None\<rparr>) st"
  "bulk_move e s (fd\<lparr>get_folderId := Some []\<rparr>) st = bulk_move e s (fd\<lparr>get_folderId := None\<rparr>) st"
  by (simp_all add: create_folder_def delete_folder_def upload_file_def delete_file_def
      bulk_delete_def move_file_def bulk_move_def or_null_empty Let_def
      cong: option.case_cong)

lemma action_empty_eq:
  "action e s (fd\<lparr>get_folderId := Some []\<rparr>) st = action e s (fd\<lparr>get_folderId := None\<rparr>) st"
  unfolding action_def Let_def by (simp add: intents_empty_eq)

text \<open>What each intent of the action runs.\<close>

lemma action_intent:
  "get_intent fd = Some ''create-folder'' \<Longrightarrow> action e s fd st = create_folder e s fd (ensureUploadDir st)"
  "get_intent fd = Some ''delete-folder'' \<Longrightarrow> action e s fd st = delete_folder e s fd (ensureUploadDir st)"
  "get_intent fd = Some ''upload'' \<Longrightarrow> action e s fd st = upload_file e s fd (ensureUploadDir st)"
  "get_intent fd = Some ''delete'' \<Longrightarrow> action e s fd st = delete_file e s fd (ensureUploadDir st)"
  "get_intent fd = Some ''bulk-delete'' \<Longrightarrow> action e s fd st = bulk_delete e s fd (ensureUploadDir st)"
  "get_intent fd = Some ''move-file'' \<Longrightarrow> action e s fd st = move_file e s fd (ensureUploadDir st)"
  "get_intent fd = Some ''bulk-move'' \<Longrightarrow> action e s fd st = bulk_move e s fd (ensureUploadDir st)"
  by (simp_all add: action_def Let_def)

lemma file_create_Inr:
  assumes "file_create e fn orig mt sz p s fo st = Inr (r, st')"
  shows "r = \<lparr>file_id = new_id e, filename = fn, originalName = orig, mimeType = mt,
               file_size = sz, path = p, shop = s, folderId = fo,
               createdAt = now e, updatedAt = now e\<rparr>"
    and "st' = st\<lparr>files := files st @ [r]\<rparr>"
    and "fkey_ok st fo" and "\<not> file_exists st (new_id e)"
  using assms by (auto simp: file_create_def Let_def split: if_splits)

lemma upload_none_root:
  assumes "upload_file e s fd st = (Inr (SuccessFile r), st')" "or_null (get_folderId fd) = None"
  shows "folderId r = None \<and> r \<in> set (files st')"
proof -
  from assms(1) obtain f where f: "get_file fd = Some f"
    by (cases "get_file fd") (simp_all add: upload_file_def)
  obtain res st1 where sv: "saveFile e f st = (res, st1)" by (cases "saveFile e f st")
  with assms f obtain fn fp where res: "res = Inr (fn, fp)"
    by (cases res) (auto simp: upload_file_def Let_def)
  from assms f sv res
  have "file_create e fn (name f) (if mime f = [] then ''application/octet-stream'' else mime f)
          (size_of f) fp s None st1 = Inr (r, st')"
    by (cases "mime f = []")
      (simp_all add: upload_file_def Let_def or_null_empty split: sum.splits prod.splits)
  from file_create_Inr(1,2)[OF this] show ?thesis by simp
qed



section \<open>Empty folder identifier\<close>

text \<open>
  C10. In \<^verbatim>\<open>upload\<close>, \<^verbatim>\<open>move-file\<close> and \<^verbatim>\<open>bulk-move\<close> an empty \<^verbatim>\<open>folderId\<close> entry
  is treated as a missing one: the action returns the same reply and the same state for
  both, and after a success the created row, the moved row and every row named by a
  bulk move have a null folder reference.
\<close>


theorem empty_folderId_is_root:
  "action e s (fd\<lparr>get_folderId := Some []\<rparr>) st = action e s (fd\<lparr>get_folderId := None\<rparr>) st
   \<and> (get_intent fd = Some ''upload'' \<longrightarrow>
        action e s (fd\<lparr>get_folderId := Some []\<rparr>) st = (Inr (SuccessFile r), st') \<longrightarrow>
        folderId r = None \<and> r \<in> set (files st'))
   \<and> (get_intent fd = Some ''move-file'' \<longrightarrow> get_fileId fd = Some i \<longrightarrow>
        action e s (fd\<lparr>get_folderId := Some []\<rparr>) st = (Inr SuccessReply, st') \<longrightarrow>
        (\<forall>f\<in>set (files st'). file_id f = i \<longrightarrow> folderId f = None))
   \<and> (get_intent fd = Some ''bulk-move'' \<longrightarrow> get_fileIds fd = Some ids \<longrightarrow>
        action e s (fd\<lparr>get_folderId := Some []\<rparr>) st = (Inr SuccessReply, st') \<longrightarrow>
        (\<forall>x\<in>set ids. \<forall>f\<in>set (files st'). file_id f = replace ''file-'' [] x \<longrightarrow> folderId f = None))"
proof (intro conjI impI)
  show "action e s (fd\<lparr>get_folderId := Some []\<rparr>) st = action e s (fd\<lparr>get_folderId := None\<rparr>) st"
    by (rule action_empty_eq)
next
  let ?fd = "fd\<lparr>get_folderId := Some []\<rparr>"
  assume "get_intent fd = Some ''upload''" and a: "action e s ?fd st = (Inr (SuccessFile r), st')"
  then have "upload_file e s ?fd (ensureUploadDir st) = (Inr (SuccessFile r), st')"
    by (simp add: action_intent)
  from upload_none_root[OF this] show "folderId r = None" "r \<in> set (files st')"
    by (simp_all add: or_null_empty)
next
  let ?fd = "fd\<lparr>get_folderId := Some []\<rparr>"
  let ?st = "ensureUploadDir st"
  assume "get_intent fd = Some ''move-file''" and i: "get_fileId fd = Some i"
    and a: "action e s ?fd st = (Inr SuccessReply, st')"
  then have m: "move_file e s ?fd ?st = (Inr SuccessReply, st')"
    by (simp add: action_intent)
  with i have "file_update e i None ?st = Inr st'"
    by (simp add: move_file_def Let_def or_null_empty split: if_splits option.splits sum.splits)
  from file_update_keeps[OF this, of "{}"]
  show "\<forall>f\<in>set (files st'). file_id f = i \<longrightarrow> folderId f = None" by simp
next
  let ?fd = "fd\<lparr>get_folderId := Some []\<rparr>"
  let ?st = "ensureUploadDir st"
  assume "get_intent fd = Some ''bulk-move''" and i: "get_fileIds fd = Some ids"
    and a: "action e s ?fd st = (Inr SuccessReply, st')"
  then have m: "bulk_move e s ?fd ?st = (Inr SuccessReply, st')"
    by (simp add: action_intent)
  with i have "bulk_move_files e None ids ?st = (None, st')"
    by (simp add: bulk_move_def Let_def or_null_empty split: option.splits prod.splits)
  from bulk_move_files_sets[OF this, of "{}"]
  show "\<forall>x\<in>set ids. \<forall>f\<in>set (files st'). file_id f = replace ''file-'' [] x \<longrightarrow> folderId f = None"
    by auto
qed


theorem empty_folderId_is_root_witness:
  "fst (action env1 ''shop-1''
      (no_form\<lparr>get_intent := Some ''upload'', get_file := Some notes_txt, get_folderId := Some []\<rparr>) state1)
     = Inr (SuccessFile X2)
   \<and> folderId X2 = None
   \<and> fst (action env1 ''shop-1''
      (no_form\<lparr>get_intent := Some ''move-file'', get_fileId := Some ''X1'', get_folderId := Some []\<rparr>) state1)
     = Inr SuccessReply
   \<and> map folderId (files (snd (action env1 ''shop-1''
      (no_form\<lparr>get_intent := Some ''move-file'', get_fileId := Some ''X1'', get_folderId := Some []\<rparr>) state1)))
     = [None]
   \<and> fst (action env1 ''shop-1''
      (no_form\<lparr>get_intent := Some ''bulk-move'', get_fileIds := Some [''file-X1''], get_folderId := Some []\<rparr>) state1)
     = Inr SuccessReply
   \<and> map folderId (files (snd (action env1 ''shop-1''
      (no_form\<lparr>get_intent := Some ''bulk-move'', get_fileIds := Some [''file-X1''], get_folderId := Some []\<rparr>) state1)))
     = [None]"
proof -
  let ?up = "no_form\<lparr>get_intent := Some ''upload'', get_file := Some notes_txt\<rparr>"
  let ?mv = "no_form\<lparr>get_intent := Some ''move-file'', get_fileId := Some ''X1''\<rparr>"
  let ?bm = "no_form\<lparr>get_intent := Some ''bulk-move'', get_fileIds := Some [''file-X1'']\<rparr>"
  let ?a = "\<lambda>fd. action env1 ''shop-1'' (fd\<lparr>get_folderId := Some []\<rparr>) state1"
  have up: "fst (?a ?up) = Inr (SuccessFile X2)"
    by (simp add: model_defs scenario_defs X2_def toString.simps)
  have mv: "fst (?a ?mv) = Inr SuccessReply"
    by (simp add: model_defs scenario_defs)
  have bm: "fst (?a ?bm) = Inr SuccessReply"
    by (simp add: model_defs scenario_defs)
  have len: "length (files (snd (?a ?mv))) = 1" "length (files (snd (?a ?bm))) = 1"
    by (simp_all add: model_defs scenario_defs)
  have ids: "map file_id (files (snd (?a ?mv))) = [''X1'']" "map file_id (files (snd (?a ?bm))) = [''X1'']"
    by (simp_all add: model_defs scenario_defs)
  have i1: "get_intent ?up = Some ''upload''" "get_intent ?mv = Some ''move-file''"
    "get_intent ?bm = Some ''bulk-move''" "get_fileId ?mv = Some ''X1''"
    "get_fileIds ?bm = Some [''file-X1'']"
    by (simp_all add: no_form_def)
  from empty_folderId_is_root[of env1 "''shop-1''" ?up state1 X2 "snd (?a ?up)"] up i1
  have c1: "folderId X2 = None" by (simp add: prod_eq_iff)
  from empty_folderId_is_root[of env1 "''shop-1''" ?mv state1 _ "snd (?a ?mv)" "''X1''"] mv i1
  have "\<forall>f\<in>set (files (snd (?a ?mv))). file_id f = ''X1'' \<longrightarrow> folderId f = None"
    by (simp add: prod_eq_iff)
  with ids(1) have c2: "map folderId (files (snd (?a ?mv))) = [None]"
    by (cases "files (snd (?a ?mv))") auto
  from empty_folderId_is_root[of env1 "''shop-1''" ?bm state1 _ "snd (?a ?bm)" _ "[''file-X1'']"] bm i1
  have "\<forall>f\<in>set (files (snd (?a ?bm))). file_id f = ''X1'' \<longrightarrow> folderId f = None"
    by (simp add: prod_eq_iff startsWith_def)
  with ids(2) have c3: "map folderId (files (snd (?a ?bm))) = [None]"
    by (cases "files (snd (?a ?bm))") auto
  from up c1 mv c2 bm c3 show ?thesis by simp
qed

section \<open>Upload writes the blob first\<close>


lemma saveFile_fails:
  "write_fails e \<Longrightarrow> saveFile e f st = (Inl IOError, ensureUploadDir st)"
  by (simp add: saveFile_def writeFile_def Let_def)

lemma saveFile_cases:
  "saveFile e f st = (Inl IOError, ensureUploadDir st) \<and> write_fails e
   \<or> saveFile e f st =
        (Inr (toString (now e) @ ''-'' @ name f, upload_path e (toString (now e) @ ''-'' @ name f)),
         (ensureUploadDir st)\<lparr>blobs := (blobs st)(upload_path e (toString (now e) @ ''-'' @ name f) \<mapsto> content f)\<rparr>)
     \<and> \<not> write_fails e"
  by (simp add: saveFile_def writeFile_def Let_def ensureUploadDir_frame)

lemma file_create_frame:
  assumes "file_create e fn orig mt sz p s fo st = Inr (r, st')"
  shows "blobs st' = blobs st" "folders st' = folders st" "files st' = files st @ [r]"
  using file_create_Inr(2)[OF assms] by simp_all

lemma ensureUploadDir_idem: "ensureUploadDir (ensureUploadDir st) = ensureUploadDir st"
  by (simp add: ensureUploadDir_def)

lemma upload_file_Inl:
  "get_file fd = Some f \<Longrightarrow> saveFile e f st = (Inl err, st1) \<Longrightarrow> upload_file e s fd st = (Inl err, st1)"
  by (simp add: upload_file_def Let_def)

lemma upload_file_Inr:
  "get_file fd = Some f \<Longrightarrow> saveFile e f st = (Inr (fn, p), st1) \<Longrightarrow>
   upload_file e s fd st =
     (case file_create e fn (name f) (if mime f = [] then ''application/octet-stream'' else mime f)
             (size_of f) p s (or_null (or_null (get_folderId fd))) st1 of
        Inl err \<Rightarrow> (Inl err, st1)
      | Inr (r, st2) \<Rightarrow> (Inr (SuccessFile r), st2))"
  by (simp add: upload_file_def Let_def)

text \<open>
  C4. Upload writes the blob before it creates the row. When \<^verbatim>\<open>writeFile\<close> raises, the
  action raises \<open>IOError\<close> and the tables and the disk are as before; and whenever the
  table of files has changed after an upload, the write did not raise and the uploaded
  bytes are on disk under the generated path.
\<close>

theorem upload_blob_first:
  assumes "get_intent fd = Some ''upload''" and "get_file fd = Some f"
  shows "(write_fails e \<longrightarrow>
            fst (action e s fd st) = Inl IOError \<and>
            files (snd (action e s fd st)) = files st \<and>
            folders (snd (action e s fd st)) = folders st \<and>
            blobs (snd (action e s fd st)) = blobs st)
       \<and> (files (snd (action e s fd st)) \<noteq> files st \<longrightarrow>
            \<not> write_fails e \<and>
            blobs (snd (action e s fd st)) (upload_path e (toString (now e) @ ''-'' @ name f))
              = Some (content f))"
proof (intro conjI impI)
  let ?st = "ensureUploadDir st"
  have a: "action e s fd st = upload_file e s fd ?st"
    using assms(1) by (simp add: action_intent)
  {
    assume "write_fails e"
    then have "saveFile e f ?st = (Inl IOError, ?st)"
      by (simp add: saveFile_fails ensureUploadDir_idem)
    from upload_file_Inl[OF assms(2) this] have "upload_file e s fd ?st = (Inl IOError, ?st)" .
    with a have r: "action e s fd st = (Inl IOError, ?st)" by simp
    from r show "fst (action e s fd st) = Inl IOError" by simp
    from r show "files (snd (action e s fd st)) = files st" by (simp add: ensureUploadDir_frame)
    from r show "folders (snd (action e s fd st)) = folders st" by (simp add: ensureUploadDir_frame)
    from r show "blobs (snd (action e s fd st)) = blobs st" by (simp add: ensureUploadDir_frame)
  }
  assume ch: "files (snd (action e s fd st)) \<noteq> files st"
  let ?key = "toString (now e) @ ''-'' @ name f"
  let ?p = "upload_path e ?key"
  let ?st2 = "(ensureUploadDir ?st)\<lparr>blobs := (blobs ?st)(?p \<mapsto> content f)\<rparr>"
  from saveFile_cases[of e f ?st]
  have sv: "saveFile e f ?st = (Inr (?key, ?p), ?st2) \<and> \<not> write_fails e"
  proof
    assume "saveFile e f ?st = (Inl IOError, ensureUploadDir ?st) \<and> write_fails e"
    then have "saveFile e f ?st = (Inl IOError, ensureUploadDir ?st)" ..
    from upload_file_Inl[OF assms(2) this] a have "files (snd (action e s fd st)) = files st"
      by (simp add: ensureUploadDir_frame)
    with ch show ?thesis by simp
  qed simp
  then show "\<not> write_fails e" by simp
  let ?mt = "if mime f = [] then ''application/octet-stream'' else mime f"
  let ?fo = "or_null (or_null (get_folderId fd))"
  show "blobs (snd (action e s fd st)) ?p = Some (content f)"
  proof (cases "file_create e ?key (name f) ?mt (size_of f) ?p s ?fo ?st2")
    case (Inl err)
    with a upload_file_Inr[OF assms(2) conjunct1[OF sv], of s] have "action e s fd st = (Inl err, ?st2)"
      by simp
    then show ?thesis by simp
  next
    case (Inr x)
    obtain r st3 where x: "x = (r, st3)" by (cases x)
    with Inr a upload_file_Inr[OF assms(2) conjunct1[OF sv], of s]
    have "action e s fd st = (Inr (SuccessFile r), st3)"
      by simp
    moreover from file_create_frame(1)[OF Inr[unfolded x]] have "blobs st3 = blobs ?st2" .
    ultimately show ?thesis by simp
  qed
qed


theorem upload_blob_first_witness:
  "fst (action (env1\<lparr>write_fails := True\<rparr>) ''shop-1''
      (no_form\<lparr>get_intent := Some ''upload'', get_file := Some notes_txt\<rparr>) state1) = Inl IOError
   \<and> files (snd (action (env1\<lparr>write_fails := True\<rparr>) ''shop-1''
      (no_form\<lparr>get_intent := Some ''upload'', get_file := Some notes_txt\<rparr>) state1)) = [X1]
   \<and> files (snd (action env1 ''shop-1''
      (no_form\<lparr>get_intent := Some ''upload'', get_file := Some notes_txt\<rparr>) state1)) = [X1, X2]
   \<and> blobs (snd (action env1 ''shop-1''
      (no_form\<lparr>get_intent := Some ''upload'', get_file := Some notes_txt\<rparr>) state1))
        ''/app/uploads/5-notes.txt'' = Some [0x68, 0x69]"
proof -
  let ?up = "no_form\<lparr>get_intent := Some ''upload'', get_file := Some notes_txt\<rparr>"
  have h: "get_intent ?up = Some ''upload''" "get_file ?up = Some notes_txt"
    by (simp_all add: no_form_def)
  have ch: "files (snd (action env1 ''shop-1'' ?up state1)) = [X1, X2]"
    by (simp add: model_defs scenario_defs toString.simps)
  have f: "write_fails (env1\<lparr>write_fails := True\<rparr>)" "files state1 = [X1]"
    by (simp_all add: state1_def)
  have k: "upload_path env1 (toString (now env1) @ ''-'' @ name notes_txt) = ''/app/uploads/5-notes.txt''"
    "content notes_txt = [0x68, 0x69]"
    by (simp_all add: env1_def notes_txt_def toString.simps digit_char_def)
  from upload_blob_first[OF h, of "env1\<lparr>write_fails := True\<rparr>" "''shop-1''" state1] f
  have a: "fst (action (env1\<lparr>write_fails := True\<rparr>) ''shop-1'' ?up state1) = Inl IOError"
    "files (snd (action (env1\<lparr>write_fails := True\<rparr>) ''shop-1'' ?up state1)) = [X1]"
    by simp_all
  from upload_blob_first[OF h, of env1 "''shop-1''" state1] ch f(2) k
  have b: "blobs (snd (action env1 ''shop-1'' ?up state1)) ''/app/uploads/5-notes.txt'' = Some [0x68, 0x69]"
    by simp
  from a b ch show ?thesis by simp
qed

section \<open>The download response\<close>

lemma distinct_key_eq:
  "distinct (map k xs) \<Longrightarrow> x \<in> set xs \<Longrightarrow> y \<in> set xs \<Longrightarrow> k x = k y \<Longrightarrow> x = y"
  by (simp add: distinct_map inj_on_def)



lemma file_findFirst_None:
  "file_findFirst st i s = None \<longleftrightarrow> (\<forall>r\<in>set (files st). file_id r = i \<longrightarrow> shop r \<noteq> s)"
  by (auto simp: file_findFirst_def find_None_iff)

lemma file_findFirst_Some:
  "file_findFirst st i s = Some r \<Longrightarrow> r \<in> set (files st) \<and> file_id r = i \<and> shop r = s"
  by (auto simp: file_findFirst_def find_Some_iff)

lemma file_findFirst_exists:
  "r \<in> set (files st) \<Longrightarrow> file_id r = i \<Longrightarrow> shop r = s \<Longrightarrow> \<exists>r'. file_findFirst st i s = Some r'"
  by (cases "file_findFirst st i s") (auto simp: file_findFirst_None)


lemma find_fresh: "\<forall>x\<in>set xs. k x \<noteq> i \<Longrightarrow> find (\<lambda>x. k x = i \<and> P x) xs = None"
  by (induction xs) simp_all

lemma find_snoc: "find P (xs @ [x]) = (case find P xs of None \<Rightarrow> if P x then Some x else None | Some y \<Rightarrow> Some y)"
  by (induction xs) simp_all

lemma file_exists_fresh: "\<not> file_exists st i \<Longrightarrow> \<forall>x\<in>set (files st). file_id x \<noteq> i"
  by (auto simp: file_exists_def)

lemma ByteString_safe: "header_safe v \<Longrightarrow> ByteString v = Inr v"
  by (simp add: ByteString_def header_safe_def list_all_iff)

lemma dropWhile_hd: "v = [] \<or> \<not> P (hd v) \<Longrightarrow> dropWhile P v = v"
  by (cases v) auto

lemma headerValueNormalize_id:
  assumes "v = [] \<or> (\<not> isHTTPWhiteSpaceCharCode (hd v) \<and> \<not> isHTTPWhiteSpaceCharCode (last v))"
  shows "headerValueNormalize v = v"
proof (cases "v = []")
  case True
  then show ?thesis by (simp add: headerValueNormalize_def)
next
  case False
  with assms have h: "\<not> isHTTPWhiteSpaceCharCode (hd v)" and l: "\<not> isHTTPWhiteSpaceCharCode (last v)"
    by simp_all
  from h have "dropWhile isHTTPWhiteSpaceCharCode v = v" by (simp add: dropWhile_hd)
  moreover from False l have "dropWhile isHTTPWhiteSpaceCharCode (rev v) = rev v"
    by (intro dropWhile_hd) (simp add: hd_rev)
  ultimately show ?thesis by (simp add: headerValueNormalize_def)
qed

lemma isValidHeaderValue_safe: "header_safe v \<Longrightarrow> plain_ends v \<Longrightarrow> isValidHeaderValue v"
  by (cases v) (auto simp: isValidHeaderValue_def header_safe_def plain_ends_def list_all_iff)

text \<open>A value that is a byte string, has no NUL, LF or CR and neither starts nor ends
  with a space or a tab goes into the header list as it is.\<close>

lemma isTokenCharCode_le: "isTokenCharCode c \<Longrightarrow> (of_char c :: nat) \<le> 0x7E"
  unfolding isTokenCharCode_def by (elim conjE)

lemma ByteString_token:
  assumes "isValidHTTPToken n"
  shows "ByteString n = Inr n"
proof -
  have "(of_char c :: nat) < 0xC4" if "c \<in> set n" for c
  proof -
    from assms that have "isTokenCharCode c"
      by (simp add: isValidHTTPToken_def list_all_iff)
    from isTokenCharCode_le[OF this] show ?thesis by simp
  qed
  then show ?thesis by (simp add: ByteString_def list_all_iff)
qed

lemma appendHeader_safe:
  assumes "header_safe v" and "plain_ends v" and "isValidHTTPToken n"
  shows "appendHeader (n, v) = Inr (n, v)"
proof -
  have ws: "\<not> isHTTPWhiteSpaceCharCode c" if "c \<in> set v" "c \<noteq> CHR 0x09" "c \<noteq> CHR 0x20" for c
    using that assms(1) by (auto simp: isHTTPWhiteSpaceCharCode_def header_safe_def list_all_iff)
  have "v = [] \<or> (\<not> isHTTPWhiteSpaceCharCode (hd v) \<and> \<not> isHTTPWhiteSpaceCharCode (last v))"
  proof (cases "v = []")
    case True
    then show ?thesis ..
  next
    case False
    with assms(2) have "hd v \<noteq> CHR 0x09" "hd v \<noteq> CHR 0x20" "last v \<noteq> CHR 0x09" "last v \<noteq> CHR 0x20"
      by (simp_all add: plain_ends_def)
    with False ws[of "hd v"] ws[of "last v"] show ?thesis by simp
  qed
  then have "headerValueNormalize v = v" by (rule headerValueNormalize_id)
  with ByteString_safe[OF assms(1)] ByteString_token[OF assms(3)]
    isValidHeaderValue_safe[OF assms(1,2)] assms(3)
  show ?thesis
    by (simp add: appendHeader_def Let_def)
qed

lemma loader_names:
  "isValidHTTPToken ''Content-Type''" "isValidHTTPToken ''Content-Disposition''"
  "isValidHTTPToken ''Content-Length''"
  by (simp_all add: isValidHTTPToken_def isTokenCharCode_def)

lemma header_safe_append: "header_safe (u @ v) \<longleftrightarrow> header_safe u \<and> header_safe v"
  by (auto simp: header_safe_def)

lemma header_safe_disposition:
  "header_safe n \<Longrightarrow> header_safe (''attachment; filename='' @ [CHR 0x22] @ n @ [CHR 0x22])"
  by (simp add: header_safe_def)

lemma plain_ends_disposition: "plain_ends (''attachment; filename='' @ [CHR 0x22] @ n @ [CHR 0x22])"
  by (simp add: plain_ends_def)

lemma digit_char_digit: "d < 10 \<Longrightarrow> digit_char d \<in> set ''0123456789''"
  unfolding digit_char_def by (rule nth_mem) simp

lemma toString_digits: "set (toString n) \<subseteq> set ''0123456789''"
proof (induction n rule: toString.induct)
  case (1 n)
  show ?case
  proof (cases "n < 10")
    case True
    with digit_char_digit[of n] show ?thesis by (subst toString.simps) simp
  next
    case False
    with 1 digit_char_digit[of "n mod 10"] show ?thesis by (subst toString.simps) simp
  qed
qed

lemma toString_not_empty: "toString n \<noteq> []"
  by (subst toString.simps) simp

lemma header_safe_toString: "header_safe (toString n)"
  using toString_digits[of n] by (auto simp: header_safe_def list_all_iff)

lemma plain_ends_toString: "plain_ends (toString n)"
proof -
  from toString_not_empty have "hd (toString n) \<in> set (toString n)" "last (toString n) \<in> set (toString n)"
    by simp_all
  with toString_digits[of n] have "hd (toString n) \<in> set ''0123456789''"
    "last (toString n) \<in> set ''0123456789''"
    by blast+
  then show ?thesis by (auto simp: plain_ends_def)
qed



lemma loader_download_200:
  assumes "file_findFirst st i s = Some r" and "blobs st (path r) = Some b"
    and "header_safe (mimeType r)" and "plain_ends (mimeType r)" and "header_safe (originalName r)"
  shows "loader_download s i st =
     Inr \<lparr>status = 200, payload = BufferBody b,
          headers = [(''Content-Type'', mimeType r),
                     (''Content-Disposition'',
                        ''attachment; filename='' @ [CHR 0x22] @ originalName r @ [CHR 0x22]),
                     (''Content-Length'', toString (file_size r))]\<rparr>"
proof -
  let ?cd = "''attachment; filename='' @ [CHR 0x22] @ originalName r @ [CHR 0x22]"
  have "fill [(''Content-Type'', mimeType r), (''Content-Disposition'', ?cd),
              (''Content-Length'', toString (file_size r))]
        = Inr [(''Content-Type'', mimeType r), (''Content-Disposition'', ?cd),
               (''Content-Length'', toString (file_size r))]"
    using appendHeader_safe[OF assms(3,4) loader_names(1)]
      appendHeader_safe[OF header_safe_disposition[OF assms(5)] plain_ends_disposition
        loader_names(2)]
      appendHeader_safe[OF header_safe_toString plain_ends_toString loader_names(3), of "file_size r"]
    by simp
  with assms(1,2) show ?thesis
    by (simp add: loader_download_def existsSync_def readFileBuffer_def new_Response_def)
qed


lemma appendHeader_TypeError: "appendHeader h = Inl err \<Longrightarrow> err = TypeError"
  by (auto simp: appendHeader_def ByteString_def Let_def split: if_splits sum.splits)

lemma fill_TypeError: "fill hs = Inl err \<Longrightarrow> err = TypeError"
proof (induction hs)
  case Nil
  then show ?case by simp
next
  case (Cons h hs)
  then show ?case
    by (cases "appendHeader h"; cases "fill hs") (auto dest: appendHeader_TypeError)
qed

lemma fill_second_fails:
  "appendHeader h2 = Inl TypeError \<Longrightarrow> fill (h1 # h2 # hs) = Inl TypeError"
  by (cases "appendHeader h1") (auto dest: appendHeader_TypeError)

lemma appendHeader_disposition_unsafe:
  assumes "\<not> header_safe n"
  shows "appendHeader (k, ''attachment; filename='' @ [CHR 0x22] @ n @ [CHR 0x22]) = Inl TypeError"
proof -
  let ?v = "''attachment; filename='' @ [CHR 0x22] @ n @ [CHR 0x22]"
  have "\<not> (\<exists>x. appendHeader (k, ?v) = Inr x)"
  proof
    assume "\<exists>x. appendHeader (k, ?v) = Inr x"
    then obtain x where x: "appendHeader (k, ?v) = Inr x" ..
    then have bs: "list_all (\<lambda>c. (of_char c :: nat) < 0xC4) ?v"
      and ok: "isValidHeaderValue (headerValueNormalize ?v)"
      by (auto simp: appendHeader_def ByteString_def Let_def split: if_splits sum.splits)
    from bs have "list_all (\<lambda>c. (of_char c :: nat) < 0xC4) n" by simp
    with assms have "CHR 0x0A \<in> set n \<or> CHR 0x0D \<in> set n \<or> CHR 0x00 \<in> set n"
      by (auto simp: header_safe_def list_all_iff)
    then have bad: "CHR 0x0A \<in> set ?v \<or> CHR 0x0D \<in> set ?v \<or> CHR 0x00 \<in> set ?v"
      by auto
    have "headerValueNormalize ?v = ?v"
      by (rule headerValueNormalize_id) (simp add: isHTTPWhiteSpaceCharCode_def)
    with bad ok show False by (auto simp: isValidHeaderValue_def)
  qed
  then show ?thesis
    by (cases "appendHeader (k, ?v)") (auto dest: appendHeader_TypeError)
qed

text \<open>When the original name is no such value, \<^verbatim>\<open>new Response\<close> raises and the loader
  with it: there is no response.\<close>

lemma loader_download_TypeError:
  assumes "file_findFirst st i s = Some r" and "blobs st (path r) = Some b"
    and "\<not> header_safe (originalName r)"
  shows "loader_download s i st = Inl TypeError"
proof -
  let ?cd = "''attachment; filename='' @ [CHR 0x22] @ originalName r @ [CHR 0x22]"
  from fill_second_fails[OF appendHeader_disposition_unsafe[OF assms(3)]]
  have "fill [(''Content-Type'', mimeType r), (''Content-Disposition'', ?cd),
              (''Content-Length'', toString (file_size r))] = Inl TypeError" .
  with assms(1,2) show ?thesis
    by (simp add: loader_download_def existsSync_def readFileBuffer_def new_Response_def)
qed




text \<open>
  Upload, then download: after a successful upload of a file whose name and type are
  such values, the tenant downloads, under the identifier of the created row, exactly the
  uploaded bytes, with the uploaded MIME type (or the default) and their number as
  content length.
\<close>

lemma upload_then_download:
  assumes "get_intent fd = Some ''upload''" and "get_file fd = Some f"
    and "action e s fd st = (Inr (SuccessFile r), st')"
    and "header_safe (name f)" and "header_safe (mime f)" and "plain_ends (mime f)"
  shows "loader_download s (file_id r) st' =
     Inr \<lparr>status = 200, payload = BufferBody (content f),
          headers = [(''Content-Type'', if mime f = [] then ''application/octet-stream'' else mime f),
                     (''Content-Disposition'',
                        ''attachment; filename='' @ [CHR 0x22] @ name f @ [CHR 0x22]),
                     (''Content-Length'', toString (length (content f)))]\<rparr>"
proof -
  let ?st = "ensureUploadDir st"
  let ?key = "toString (now e) @ ''-'' @ name f"
  let ?p = "upload_path e ?key"
  let ?sa = "(ensureUploadDir ?st)\<lparr>blobs := (blobs ?st)(?p \<mapsto> content f)\<rparr>"
  let ?mt = "if mime f = [] then ''application/octet-stream'' else mime f"
  let ?fo = "or_null (or_null (get_folderId fd))"
  from assms(1,3) have u: "upload_file e s fd ?st = (Inr (SuccessFile r), st')"
    by (simp add: action_intent)
  from saveFile_cases[of e f ?st] have sv: "saveFile e f ?st = (Inr (?key, ?p), ?sa)"
  proof
    assume "saveFile e f ?st = (Inl IOError, ensureUploadDir ?st) \<and> write_fails e"
    then have "saveFile e f ?st = (Inl IOError, ensureUploadDir ?st)" ..
    from upload_file_Inl[OF assms(2) this, of s] u show ?thesis by simp
  qed simp
  from upload_file_Inr[OF assms(2) sv, of s] u
  have c: "file_create e ?key (name f) ?mt (size_of f) ?p s ?fo ?sa = Inr (r, st')"
    by (cases "file_create e ?key (name f) ?mt (size_of f) ?p s ?fo ?sa") auto
  note r = file_create_Inr(1)[OF c]
  from r have i: "file_id r = new_id e" by simp
  from file_exists_fresh[OF file_create_Inr(4)[OF c]]
  have "find (\<lambda>x. file_id x = new_id e \<and> shop x = s) (files ?sa) = None"
    by (rule find_fresh)
  with i have "find (\<lambda>x. file_id x = file_id r \<and> shop x = s) (files ?sa) = None"
    by simp
  with file_create_frame(3)[OF c] r have "file_findFirst st' (file_id r) s = Some r"
    by (simp add: file_findFirst_def find_snoc)
  moreover from file_create_frame(1)[OF c] r have "blobs st' (path r) = Some (content f)"
    by simp
  moreover have "header_safe (mimeType r)" "plain_ends (mimeType r)" "header_safe (originalName r)"
    using r assms(4-6) by (cases "mime f = []"; simp add: header_safe_def plain_ends_def)+
  ultimately have "loader_download s (file_id r) st' =
     Inr \<lparr>status = 200, payload = BufferBody (content f),
          headers = [(''Content-Type'', mimeType r),
                     (''Content-Disposition'',
                        ''attachment; filename='' @ [CHR 0x22] @ originalName r @ [CHR 0x22]),
                     (''Content-Length'', toString (file_size r))]\<rparr>"
    by (rule loader_download_200)
  with r show ?thesis by (simp add: size_of_def)
qed

section \<open>Deleting a file\<close>

lemma file_delete_Inr:
  "file_exists st i \<Longrightarrow> file_delete i st = Inr (st\<lparr>files := filter (\<lambda>f. file_id f \<noteq> i) (files st)\<rparr>)"
  by (simp add: file_delete_def)

lemma file_exists_frame: "files st' = files st \<Longrightarrow> file_exists st' i = file_exists st i"
  by (simp add: file_exists_def)

lemma folder_exists_frame: "folders st' = folders st \<Longrightarrow> folder_exists st' i = folder_exists st i"
  by (simp add: folder_exists_def)

lemma delete_file_found:
  assumes i: "get_fileId fd = Some i" "i \<noteq> []" and r: "file_findFirst st i s = Some r"
  shows "\<exists>st1. files st1 = files st \<and> folders st1 = folders st \<and>
           delete_file e s fd st = (Inr SuccessReply, st1\<lparr>files := filter (\<lambda>f. file_id f \<noteq> i) (files st)\<rparr>)"
proof -
  let ?st1 = "case deleteFile e (path r) st of Inl err \<Rightarrow> st | Inr st' \<Rightarrow> st'"
  have fr: "files ?st1 = files st \<and> folders ?st1 = folders st"
  proof (cases "deleteFile e (path r) st")
    case (Inl err)
    then show ?thesis by simp
  next
    case (Inr sb)
    from deleteFile_frame(1,2)[OF Inr] Inr show ?thesis by simp
  qed
  from file_findFirst_Some[OF r] have "r \<in> set (files st)" "file_id r = i"
    by simp_all
  then have "i \<in> file_id ` set (files st)" by blast
  then have "file_exists st i" by (simp add: file_exists_def)
  with fr have "file_exists ?st1 i" by (simp add: file_exists_def)
  from file_delete_Inr[OF this] fr
  have "file_delete i ?st1 = Inr (?st1\<lparr>files := filter (\<lambda>f. file_id f \<noteq> i) (files st)\<rparr>)"
    by simp
  with i r have "delete_file e s fd st =
      (Inr SuccessReply, ?st1\<lparr>files := filter (\<lambda>f. file_id f \<noteq> i) (files st)\<rparr>)"
    by (simp add: delete_file_def Let_def)
  with fr show ?thesis by blast
qed

text \<open>
  C7. Deleting a file of the requesting tenant is best effort on the blob: whatever
  \<^verbatim>\<open>unlink\<close> does (the environment \<open>e\<close> is arbitrary: it may raise) and whether the blob
  is on disk or not, the action reports success and the table of files has lost the rows
  with the identifier and nothing else.
\<close>

theorem delete_best_effort:
  assumes "get_intent fd = Some ''delete''" and "get_fileId fd = Some i" and "i \<noteq> []"
    and "r \<in> set (files st)" and "file_id r = i" and "shop r = s"
  shows "fst (action e s fd st) = Inr SuccessReply
       \<and> files (snd (action e s fd st)) = filter (\<lambda>f. file_id f \<noteq> i) (files st)
       \<and> r \<notin> set (files (snd (action e s fd st)))
       \<and> folders (snd (action e s fd st)) = folders st"
proof -
  let ?st = "ensureUploadDir st"
  from assms(4-6) have "r \<in> set (files ?st)" by (simp add: ensureUploadDir_frame)
  from file_findFirst_exists[OF this assms(5,6)]
  obtain r' where r': "file_findFirst ?st i s = Some r'" by blast
  from delete_file_found[OF assms(2,3) r', of e] obtain sa where
    sa: "files sa = files ?st" "folders sa = folders ?st"
      "delete_file e s fd ?st = (Inr SuccessReply, sa\<lparr>files := filter (\<lambda>f. file_id f \<noteq> i) (files ?st)\<rparr>)"
    by blast
  from assms(1) have "action e s fd st = delete_file e s fd ?st"
    by (simp add: action_intent)
  with sa assms(5) show ?thesis by (simp add: ensureUploadDir_frame)
qed

theorem delete_best_effort_witness:
  "fst (action (env1\<lparr>unlink_fails := (\<lambda>p. True)\<rparr>) ''shop-1''
         (no_form\<lparr>get_intent := Some ''delete'', get_fileId := Some ''X1''\<rparr>) state1) = Inr SuccessReply
   \<and> files (snd (action (env1\<lparr>unlink_fails := (\<lambda>p. True)\<rparr>) ''shop-1''
         (no_form\<lparr>get_intent := Some ''delete'', get_fileId := Some ''X1''\<rparr>) state1)) = []
   \<and> blobs (snd (action (env1\<lparr>unlink_fails := (\<lambda>p. True)\<rparr>) ''shop-1''
         (no_form\<lparr>get_intent := Some ''delete'', get_fileId := Some ''X1''\<rparr>) state1))
        ''/app/uploads/2-invoice.pdf'' = Some pdf_bytes
   \<and> fst (action env1 ''shop-1''
         (no_form\<lparr>get_intent := Some ''delete'', get_fileId := Some ''X1''\<rparr>)
         (state1\<lparr>blobs := Map.empty\<rparr>)) = Inr SuccessReply
   \<and> files (snd (action env1 ''shop-1''
         (no_form\<lparr>get_intent := Some ''delete'', get_fileId := Some ''X1''\<rparr>)
         (state1\<lparr>blobs := Map.empty\<rparr>))) = []"
proof -
  let ?fd = "no_form\<lparr>get_intent := Some ''delete'', get_fileId := Some ''X1''\<rparr>"
  let ?e = "env1\<lparr>unlink_fails := (\<lambda>p. True)\<rparr>"
  let ?gone = "state1\<lparr>blobs := Map.empty\<rparr>"
  have h: "get_intent ?fd = Some ''delete''" "get_fileId ?fd = Some ''X1''" "''X1'' \<noteq> []"
    by (simp_all add: no_form_def)
  have x: "X1 \<in> set (files state1)" "X1 \<in> set (files ?gone)" "file_id X1 = ''X1''"
    "shop X1 = ''shop-1''"
    "filter (\<lambda>f. file_id f \<noteq> ''X1'') (files state1) = []"
    "filter (\<lambda>f. file_id f \<noteq> ''X1'') (files ?gone) = []"
    by (simp_all add: scenario_defs)
  have b: "blobs (snd (action ?e ''shop-1'' ?fd state1)) ''/app/uploads/2-invoice.pdf'' = Some pdf_bytes"
    by (simp add: model_defs scenario_defs)
  from delete_best_effort[OF h x(1,3,4), of ?e] x(5)
  have a: "fst (action ?e ''shop-1'' ?fd state1) = Inr SuccessReply"
    "files (snd (action ?e ''shop-1'' ?fd state1)) = []"
    by simp_all
  from delete_best_effort[OF h x(2,3,4), of env1] x(6)
  have c: "fst (action env1 ''shop-1'' ?fd ?gone) = Inr SuccessReply"
    "files (snd (action env1 ''shop-1'' ?fd ?gone)) = []"
    by simp_all
  from a b c show ?thesis by simp
qed

section \<open>Moving a file\<close>

lemma same_but_folder_upd: "same_but_folder f (f\<lparr>folderId := fo, updatedAt := t\<rparr>)"
  by (simp add: same_but_folder_def)

lemma same_but_folder_refl: "same_but_folder f f"
  by (simp add: same_but_folder_def)

lemma move_file_Success:
  assumes "move_file e s fd st = (Inr SuccessReply, st')"
  shows "\<exists>i. get_fileId fd = Some i \<and> file_update e i (or_null (get_folderId fd)) st = Inr st'"
  using assms
  by (simp add: move_file_def Let_def split: option.splits if_splits sum.splits)

text \<open>
  C9. A successful move of a file changes nothing but \<^verbatim>\<open>folderId\<close> and \<^verbatim>\<open>updatedAt\<close>:
  row by row the table of files keeps identifier, filename, original name, MIME type,
  size, path, tenant and creation time; the rows with another identifier are unchanged;
  the bytes on disk and the table of folders are unchanged.
\<close>

theorem move_changes_folder_only:
  assumes "get_intent fd = Some ''move-file''" and "action e s fd st = (Inr SuccessReply, st')"
  shows "list_all2 same_but_folder (files st) (files st')
       \<and> list_all2 (\<lambda>f g. get_fileId fd \<noteq> Some (file_id f) \<longrightarrow> g = f) (files st) (files st')
       \<and> blobs st' = blobs st \<and> folders st' = folders st"
proof -
  let ?st = "ensureUploadDir st"
  from assms have "move_file e s fd ?st = (Inr SuccessReply, st')"
    by (simp add: action_intent)
  from move_file_Success[OF this] obtain i where
    i: "get_fileId fd = Some i" and u: "file_update e i (or_null (get_folderId fd)) ?st = Inr st'"
    by blast
  let ?upd = "\<lambda>f. if file_id f = i then f\<lparr>folderId := or_null (get_folderId fd), updatedAt := now e\<rparr> else f"
  from file_update_files[OF u] have fs: "files st' = map ?upd (files st)"
    by (simp add: ensureUploadDir_frame)
  have "list_all2 same_but_folder (files st) (map ?upd (files st))"
    by (simp add: list_all2_map2 list_all2_same same_but_folder_upd same_but_folder_refl)
  moreover have "list_all2 (\<lambda>f g. get_fileId fd \<noteq> Some (file_id f) \<longrightarrow> g = f) (files st) (map ?upd (files st))"
    using i by (simp add: list_all2_map2 list_all2_same)
  moreover from file_update_frame[OF u] have "blobs st' = blobs st" "folders st' = folders st"
    by (simp_all add: ensureUploadDir_frame)
  ultimately show ?thesis using fs by simp
qed

theorem move_changes_folder_only_witness:
  "action env1 ''shop-1'' (no_form\<lparr>get_intent := Some ''move-file'', get_fileId := Some ''X1''\<rparr>) state1
     = (Inr SuccessReply, state1\<lparr>files := [X1\<lparr>folderId := None, updatedAt := 5\<rparr>]\<rparr>)
   \<and> list_all2 same_but_folder [X1] [X1\<lparr>folderId := None, updatedAt := 5\<rparr>]
   \<and> blobs (state1\<lparr>files := [X1\<lparr>folderId := None, updatedAt := 5\<rparr>]\<rparr>) = blobs state1"
proof -
  let ?fd = "no_form\<lparr>get_intent := Some ''move-file'', get_fileId := Some ''X1''\<rparr>"
  let ?st' = "state1\<lparr>files := [X1\<lparr>folderId := None, updatedAt := 5\<rparr>]\<rparr>"
  have h: "get_intent ?fd = Some ''move-file''" by (simp add: no_form_def)
  have a: "action env1 ''shop-1'' ?fd state1 = (Inr SuccessReply, ?st')"
    by (simp add: model_defs scenario_defs)
  have f: "files state1 = [X1]" "files ?st' = [X1\<lparr>folderId := None, updatedAt := 5\<rparr>]"
    by (simp_all add: state1_def)
  from move_changes_folder_only[OF h a] f
  have "list_all2 same_but_folder [X1] [X1\<lparr>folderId := None, updatedAt := 5\<rparr>]"
    "blobs ?st' = blobs state1"
    by simp_all
  with a show ?thesis by simp
qed

section \<open>Deleting a folder\<close>

lemma folder_findFirst_Some:
  "folder_findFirst st i s = Some g \<Longrightarrow> g \<in> set (folders st) \<and> folder_id g = i \<and> folder_shop g = s"
  by (auto simp: folder_findFirst_def find_Some_iff)

lemma folder_findFirst_None:
  "folder_findFirst st i s = None \<longleftrightarrow> (\<forall>g\<in>set (folders st). folder_id g = i \<longrightarrow> folder_shop g \<noteq> s)"
  by (auto simp: folder_findFirst_def find_None_iff)

lemma folder_findFirst_exists:
  "g \<in> set (folders st) \<Longrightarrow> folder_id g = i \<Longrightarrow> folder_shop g = s \<Longrightarrow>
   \<exists>g'. folder_findFirst st i s = Some g'"
  by (cases "folder_findFirst st i s") (auto simp: folder_findFirst_None)

lemma folder_delete_Inr:
  "folder_exists st i \<Longrightarrow>
   folder_delete i st = Inr (st\<lparr>folders := filter (\<lambda>g. folder_id g \<noteq> i) (folders st),
                               files := filter (\<lambda>f. folderId f \<noteq> Some i) (files st)\<rparr>)"
  by (simp add: folder_delete_def)

lemma delete_folder_found:
  assumes i: "get_folderId fd = Some i" "i \<noteq> []" and g: "folder_findFirst st i s = Some g"
  shows "fst (delete_folder e s fd st) = Inr SuccessReply
       \<and> files (snd (delete_folder e s fd st)) = filter (\<lambda>f. folderId f \<noteq> Some i) (files st)
       \<and> folders (snd (delete_folder e s fd st)) = filter (\<lambda>g. folder_id g \<noteq> i) (folders st)"
proof -
  let ?sa = "delete_blobs e (files_of st g) st"
  have fr: "files ?sa = files st" "folders ?sa = folders st"
    using delete_blobs_frame[of e "files_of st g" st] by simp_all
  from folder_findFirst_Some[OF g] have "g \<in> set (folders st)" "folder_id g = i"
    by simp_all
  then have "i \<in> folder_id ` set (folders st)" by blast
  with fr have "folder_exists ?sa i" by (simp add: folder_exists_def)
  from folder_delete_Inr[OF this] fr
  have "folder_delete i ?sa = Inr (?sa\<lparr>folders := filter (\<lambda>g. folder_id g \<noteq> i) (folders st),
                               files := filter (\<lambda>f. folderId f \<noteq> Some i) (files st)\<rparr>)"
    by simp
  with i g have "delete_folder e s fd st =
      (Inr SuccessReply, ?sa\<lparr>folders := filter (\<lambda>g. folder_id g \<noteq> i) (folders st),
                               files := filter (\<lambda>f. folderId f \<noteq> Some i) (files st)\<rparr>)"
    by (simp add: delete_folder_def Let_def)
  then show ?thesis by simp
qed

text \<open>
  C6. Deleting a folder of the requesting tenant cascades in the table of files: the
  action reports success, no row of \<^verbatim>\<open>File\<close> refers to the folder afterwards, and every
  file that referred to it is gone, so that \<^verbatim>\<open>findFirst\<close> finds it for no tenant.
\<close>

theorem folder_cascade:
  assumes "get_intent fd = Some ''delete-folder''" and "get_folderId fd = Some i" and "i \<noteq> []"
    and "g \<in> set (folders st)" and "folder_id g = i" and "folder_shop g = s"
    and "distinct (map file_id (files st))"
  shows "fst (action e s fd st) = Inr SuccessReply
       \<and> (\<forall>f\<in>set (files (snd (action e s fd st))). folderId f \<noteq> Some i)
       \<and> (\<forall>f\<in>set (files st). folderId f = Some i \<longrightarrow>
             f \<notin> set (files (snd (action e s fd st))) \<and>
             (\<forall>t. file_findFirst (snd (action e s fd st)) (file_id f) t = None))"
proof -
  let ?st = "ensureUploadDir st"
  let ?st' = "snd (action e s fd st)"
  from assms(4) have "g \<in> set (folders ?st)" by (simp add: ensureUploadDir_frame)
  from folder_findFirst_exists[OF this assms(5,6)]
  obtain g' where g': "folder_findFirst ?st i s = Some g'" by blast
  from assms(1) have a: "action e s fd st = delete_folder e s fd ?st"
    by (simp add: action_intent)
  from delete_folder_found[OF assms(2,3) g', of e] a
  have ok: "fst (action e s fd st) = Inr SuccessReply"
    and fs: "files ?st' = filter (\<lambda>f. folderId f \<noteq> Some i) (files st)"
    by (simp_all add: ensureUploadDir_frame)
  have gone: "f \<notin> set (files ?st') \<and> file_findFirst ?st' (file_id f) t = None"
    if f: "f \<in> set (files st)" "folderId f = Some i" for f t
  proof
    from f fs show "f \<notin> set (files ?st')" by simp
    show "file_findFirst ?st' (file_id f) t = None"
      unfolding file_findFirst_None
    proof (intro ballI impI)
      fix r assume r: "r \<in> set (files ?st')" "file_id r = file_id f"
      with fs have "r \<in> set (files st)" "folderId r \<noteq> Some i" by simp_all
      with distinct_key_eq[OF assms(7) this(1) f(1)] r(2) f(2) show "shop r \<noteq> t" by simp
    qed
  qed
  from fs have "\<forall>f\<in>set (files ?st'). folderId f \<noteq> Some i" by simp
  with ok gone show ?thesis by blast
qed

theorem folder_cascade_witness:
  "fst (action env1 ''shop-1'' (no_form\<lparr>get_intent := Some ''delete-folder'', get_folderId := Some ''F1''\<rparr>)
          state1) = Inr SuccessReply
   \<and> files (snd (action env1 ''shop-1''
          (no_form\<lparr>get_intent := Some ''delete-folder'', get_folderId := Some ''F1''\<rparr>) state1)) = []
   \<and> folderId X1 = Some ''F1''
   \<and> file_findFirst (snd (action env1 ''shop-1''
          (no_form\<lparr>get_intent := Some ''delete-folder'', get_folderId := Some ''F1''\<rparr>) state1))
        ''X1'' ''shop-1'' = None"
proof -
  let ?fd = "no_form\<lparr>get_intent := Some ''delete-folder'', get_folderId := Some ''F1''\<rparr>"
  have h: "get_intent ?fd = Some ''delete-folder''" "get_folderId ?fd = Some ''F1''" "''F1'' \<noteq> []"
    "F1 \<in> set (folders state1)" "folder_id F1 = ''F1''" "folder_shop F1 = ''shop-1''"
    "distinct (map file_id (files state1))"
    by (simp_all add: scenario_defs)
  have x: "X1 \<in> set (files state1)" "folderId X1 = Some ''F1''" "file_id X1 = ''X1''"
    by (simp_all add: scenario_defs)
  have e: "files (snd (action env1 ''shop-1'' ?fd state1)) = []"
    by (simp add: model_defs scenario_defs)
  from folder_cascade[OF h, of env1] x
  have "fst (action env1 ''shop-1'' ?fd state1) = Inr SuccessReply"
    "file_findFirst (snd (action env1 ''shop-1'' ?fd state1)) ''X1'' ''shop-1'' = None"
    by auto
  with e x(2) show ?thesis by simp
qed

section \<open>The storage key\<close>

lemma digit_cases:
  "d < 10 \<Longrightarrow> d = 0 \<or> d = 1 \<or> d = 2 \<or> d = 3 \<or> d = 4 \<or> d = 5 \<or> d = 6 \<or> d = 7 \<or> d = 8 \<or> d = (9::nat)"
  by arith

lemma digit_val_char: "d < 10 \<Longrightarrow> digit_val (digit_char d) = d"
  by (drule digit_cases) (auto simp: digit_val_def digit_char_def)

lemma digit_not_dash: "d < 10 \<Longrightarrow> digit_char d \<noteq> CHR ''-''"
  by (drule digit_cases) (auto simp: digit_char_def)

lemma toString_no_dash: "CHR ''-'' \<notin> set (toString n)"
proof (induction n rule: toString.induct)
  case (1 n)
  show ?case
  proof (cases "n < 10")
    case True
    then show ?thesis
      using digit_not_dash[of n] by (subst toString.simps) auto
  next
    case False
    with 1 digit_not_dash[of "n mod 10"] show ?thesis
      by (subst toString.simps) auto
  qed
qed

lemma read_nat_snoc: "read_nat (s @ [c]) = 10 * read_nat s + digit_val c"
  by (simp add: read_nat_def)

lemma read_nat_toString: "read_nat (toString n) = n"
proof (induction n rule: toString.induct)
  case (1 n)
  show ?case
  proof (cases "n < 10")
    case True
    then show ?thesis
      by (subst toString.simps) (simp add: read_nat_def digit_val_char)
  next
    case False
    with 1 have "read_nat (toString (n div 10)) = n div 10" by simp
    with False show ?thesis
      by (subst toString.simps) (simp add: read_nat_snoc digit_val_char)
  qed
qed

lemma toString_inject: "toString a = toString b \<longleftrightarrow> a = b"
proof
  assume "toString a = toString b"
  then have "read_nat (toString a) = read_nat (toString b)" by (rule arg_cong)
  then show "a = b" by (simp only: read_nat_toString)
qed simp

lemma split_at_first:
  "c \<notin> set xs \<Longrightarrow> c \<notin> set ys \<Longrightarrow> xs @ c # r1 = ys @ c # r2 \<Longrightarrow> xs = ys \<and> r1 = r2"
proof (induction xs arbitrary: ys)
  case Nil
  then show ?case by (cases ys) auto
next
  case (Cons x xs)
  then show ?case by (cases ys) auto
qed

lemma key_inject:
  "toString a @ CHR ''-'' # n = toString b @ CHR ''-'' # m \<longleftrightarrow> a = b \<and> n = m"
proof
  assume "toString a @ CHR ''-'' # n = toString b @ CHR ''-'' # m"
  from split_at_first[OF toString_no_dash toString_no_dash this]
  show "a = b \<and> n = m" by (simp add: toString_inject)
qed simp

lemma saveFile_key:
  "saveFile e f st = (Inr (k, p), st') \<Longrightarrow>
   k = toString (now e) @ ''-'' @ name f \<and> p = upload_path e k \<and> blobs st' p = Some (content f)"
  by (auto simp: saveFile_def writeFile_def Let_def split: if_splits)

text \<open>
  C3, as the code has it. The key that \<^verbatim>\<open>saveFile\<close> generates is the clock reading in
  milliseconds, a dash and the original name: two writes get the same key exactly when
  they read the same clock value and carry the same original name. So two writes of one
  name get different keys whenever their clock readings differ, and nothing keeps the
  keys of two writes in the same millisecond apart.
\<close>

theorem storage_key_equal_iff:
  assumes "saveFile e f st = (Inr (k, p), st')" and "saveFile e' f' sa = (Inr (k', p'), sa')"
  shows "k = k' \<longleftrightarrow> now e = now e' \<and> name f = name f'"
  using saveFile_key[OF assms(1)] saveFile_key[OF assms(2)] by (simp add: key_inject)

theorem storage_key_equal_iff_witness:
  "fst (saveFile env1 notes_txt state1) = Inr (''5-notes.txt'', ''/app/uploads/5-notes.txt'')
   \<and> fst (saveFile (env1\<lparr>now := 6\<rparr>) notes_txt state1)
       = Inr (''6-notes.txt'', ''/app/uploads/6-notes.txt'')
   \<and> ''5-notes.txt'' \<noteq> ''6-notes.txt''"
proof -
  have a: "fst (saveFile env1 notes_txt state1) = Inr (''5-notes.txt'', ''/app/uploads/5-notes.txt'')"
    by (simp add: saveFile_def writeFile_def ensureUploadDir_def Let_def scenario_defs
        toString.simps digit_char_def)
  have b: "fst (saveFile (env1\<lparr>now := 6\<rparr>) notes_txt state1)
       = Inr (''6-notes.txt'', ''/app/uploads/6-notes.txt'')"
    by (simp add: saveFile_def writeFile_def ensureUploadDir_def Let_def scenario_defs
        toString.simps digit_char_def)
  have "now env1 \<noteq> now (env1\<lparr>now := 6\<rparr>)" by (simp add: env1_def)
  with storage_key_equal_iff[of env1 notes_txt state1 "''5-notes.txt''" "''/app/uploads/5-notes.txt''"
      "snd (saveFile env1 notes_txt state1)" "env1\<lparr>now := 6\<rparr>" notes_txt state1
      "''6-notes.txt''" "''/app/uploads/6-notes.txt''"
      "snd (saveFile (env1\<lparr>now := 6\<rparr>) notes_txt state1)"] a b
  have "''5-notes.txt'' \<noteq> ''6-notes.txt''" by (simp add: prod_eq_iff)
  with a b show ?thesis by blast
qed

text \<open>
  C3, as stated, fails: two uploads of \<^verbatim>\<open>notes.txt\<close> that read the same clock value,
  one after the other, get the same key and the same path, and the second write replaces
  the bytes of the first.
\<close>

theorem storage_key_counterexample:
  "fst (saveFile env1 notes_txt state1) = Inr (''5-notes.txt'', ''/app/uploads/5-notes.txt'')
   \<and> fst (saveFile env1 (notes_txt\<lparr>content := [0x21]\<rparr>) (snd (saveFile env1 notes_txt state1)))
       = Inr (''5-notes.txt'', ''/app/uploads/5-notes.txt'')
   \<and> blobs (snd (saveFile env1 notes_txt state1)) ''/app/uploads/5-notes.txt'' = Some [0x68, 0x69]
   \<and> blobs (snd (saveFile env1 (notes_txt\<lparr>content := [0x21]\<rparr>) (snd (saveFile env1 notes_txt state1))))
        ''/app/uploads/5-notes.txt'' = Some [0x21]"
  by (simp add: saveFile_def writeFile_def ensureUploadDir_def Let_def scenario_defs
      toString.simps digit_char_def)

section \<open>Identifiers that are not found\<close>

lemma startsWith_append: "startsWith p (p @ s)"
  by (simp add: startsWith_def)

lemma replace_prefix: "replace p [] (p @ s) = s"
proof (cases "p @ s")
  case Nil
  then show ?thesis by simp
next
  case (Cons c cs)
  have "replace p [] (c # cs) = drop (length p) (c # cs)"
    using startsWith_append[of p s] Cons by simp
  with Cons show ?thesis by (metis append_eq_conv_conj)
qed

lemma not_startsWith_file_folder: "\<not> startsWith ''file-'' (''folder-'' @ s)"
  by (simp add: startsWith_def)

lemma not_startsWith_folder_file: "\<not> startsWith ''folder-'' (''file-'' @ s)"
  by (simp add: startsWith_def)





section \<open>An action is a sequence of store operations\<close>

lemma steps_frame:
  "files sb = files sa \<Longrightarrow> folders sb = folders sa \<Longrightarrow> store_step\<^sup>*\<^sup>* sa sb"
  by (rule r_into_rtranclp) (rule store_step.frame)

lemma steps_then:
  "store_step\<^sup>*\<^sup>* sa sb \<Longrightarrow> store_step sb sc \<Longrightarrow> store_step\<^sup>*\<^sup>* sa sc"
  by (rule rtranclp.rtrancl_into_rtrancl)

lemma steps_ensure: "store_step\<^sup>*\<^sup>* st (ensureUploadDir st)"
  by (rule steps_frame) (simp_all add: ensureUploadDir_frame)

lemma steps_delete_blobs: "store_step\<^sup>*\<^sup>* st (delete_blobs e fs st)"
  using delete_blobs_frame[of e fs st] by (intro steps_frame) simp_all

lemma steps_saveFile: "saveFile e f st = (res, sb) \<Longrightarrow> store_step\<^sup>*\<^sup>* st sb"
  by (rule steps_frame)
    (auto simp: saveFile_def writeFile_def Let_def ensureUploadDir_frame split: if_splits)

lemma steps_bulk_delete_files: "store_step\<^sup>*\<^sup>* st (bulk_delete_files e s xs st)"
proof (induction xs arbitrary: st)
  case Nil
  show ?case by simp
next
  case (Cons x xs)
  let ?i = "replace ''file-'' [] x"
  show ?case
  proof (cases "file_findFirst st ?i s")
    case None
    with Cons show ?thesis by (simp add: Let_def)
  next
    case (Some r)
    show ?thesis
    proof (cases "deleteFile e (path r) st")
      case (Inl err)
      with Some Cons show ?thesis by (simp add: Let_def)
    next
      case (Inr sa)
      from deleteFile_frame(1,2)[OF Inr] have sa: "store_step\<^sup>*\<^sup>* st sa" by (rule steps_frame)
      show ?thesis
      proof (cases "file_delete ?i sa")
        case (Inl err)
        with Some Inr rtranclp_trans[OF sa Cons[of sa]] show ?thesis by (simp add: Let_def)
      next
        case (Inr sb)
        from steps_then[OF sa store_step.file_deleted[OF Inr]] have "store_step\<^sup>*\<^sup>* st sb" .
        from rtranclp_trans[OF this Cons[of sb]] Some \<open>deleteFile e (path r) st = Inr sa\<close> Inr
        show ?thesis by (simp add: Let_def)
      qed
    qed
  qed
qed

lemma steps_bulk_delete_folders: "store_step\<^sup>*\<^sup>* st (snd (bulk_delete_folders e s xs st))"
proof (induction xs arbitrary: st)
  case Nil
  show ?case by simp
next
  case (Cons x xs)
  let ?i = "replace ''folder-'' [] x"
  show ?case
  proof (cases "folder_findFirst st ?i s")
    case None
    with Cons show ?thesis by (simp add: Let_def)
  next
    case (Some g)
    let ?sa = "delete_blobs e (files_of st g) st"
    have sa: "store_step\<^sup>*\<^sup>* st ?sa" by (rule steps_delete_blobs)
    show ?thesis
    proof (cases "folder_delete ?i ?sa")
      case (Inl err)
      with Some sa show ?thesis by (simp add: Let_def)
    next
      case (Inr sb)
      from steps_then[OF sa store_step.folder_deleted[OF Inr]] have "store_step\<^sup>*\<^sup>* st sb" .
      from rtranclp_trans[OF this Cons[of sb]] Some Inr show ?thesis by (simp add: Let_def)
    qed
  qed
qed

lemma steps_bulk_move_files: "store_step\<^sup>*\<^sup>* st (snd (bulk_move_files e fo xs st))"
proof (induction xs arbitrary: st)
  case Nil
  show ?case by simp
next
  case (Cons x xs)
  show ?case
  proof (cases "file_update e (replace ''file-'' [] x) fo st")
    case (Inl err)
    then show ?thesis by (simp add: Let_def)
  next
    case (Inr sa)
    from r_into_rtranclp[of store_step, OF store_step.file_updated[OF Inr]]
    have "store_step\<^sup>*\<^sup>* st sa" .
    from rtranclp_trans[OF this Cons[of sa]] Inr show ?thesis by (simp add: Let_def)
  qed
qed

lemma steps_create_folder: "store_step\<^sup>*\<^sup>* st (snd (create_folder e s fd st))"
proof (cases "get_name fd")
  case None
  then show ?thesis by (simp add: create_folder_def)
next
  case (Some raw)
  show ?thesis
  proof (cases "folder_create e (trim raw) s st")
    case (Inl err)
    with Some show ?thesis by (simp add: create_folder_def Let_def)
  next
    case (Inr x)
    obtain g sb where x: "x = (g, sb)" by (cases x)
    from r_into_rtranclp[of store_step, OF store_step.folder_created[OF Inr[unfolded x]]]
    have "store_step\<^sup>*\<^sup>* st sb" .
    with Some Inr x show ?thesis by (simp add: create_folder_def Let_def)
  qed
qed

lemma steps_delete_folder: "store_step\<^sup>*\<^sup>* st (snd (delete_folder e s fd st))"
proof (cases "get_folderId fd")
  case None
  then show ?thesis by (simp add: delete_folder_def)
next
  case (Some i)
  note i = Some
  show ?thesis
  proof (cases "folder_findFirst st i s")
    case None
    with i show ?thesis by (simp add: delete_folder_def)
  next
    case (Some g)
    let ?sa = "delete_blobs e (files_of st g) st"
    have sa: "store_step\<^sup>*\<^sup>* st ?sa" by (rule steps_delete_blobs)
    show ?thesis
    proof (cases "folder_delete i ?sa")
      case (Inl err)
      with Some i sa show ?thesis by (simp add: delete_folder_def Let_def)
    next
      case (Inr sb)
      from steps_then[OF sa store_step.folder_deleted[OF Inr]] have "store_step\<^sup>*\<^sup>* st sb" .
      with Some i Inr show ?thesis by (simp add: delete_folder_def Let_def)
    qed
  qed
qed

lemma steps_upload_file: "store_step\<^sup>*\<^sup>* st (snd (upload_file e s fd st))"
proof (cases "get_file fd")
  case None
  then show ?thesis by (simp add: upload_file_def)
next
  case (Some f)
  obtain res sa where sv: "saveFile e f st = (res, sa)" by (cases "saveFile e f st")
  from steps_saveFile[OF sv] have sa: "store_step\<^sup>*\<^sup>* st sa" .
  show ?thesis
  proof (cases res)
    case (Inl err)
    with upload_file_Inl[OF Some sv[unfolded Inl]] sa show ?thesis by simp
  next
    case (Inr kp)
    obtain k p where kp: "kp = (k, p)" by (cases kp)
    note u = upload_file_Inr[OF Some sv[unfolded Inr kp], of s]
    let ?mt = "if mime f = [] then ''application/octet-stream'' else mime f"
    let ?fo = "or_null (or_null (get_folderId fd))"
    show ?thesis
    proof (cases "file_create e k (name f) ?mt (size_of f) p s ?fo sa")
      case (Inl err)
      with u sa show ?thesis by simp
    next
      case (Inr x)
      obtain r sb where x: "x = (r, sb)" by (cases x)
      from steps_then[OF sa store_step.file_created[OF Inr[unfolded x]]]
      have "store_step\<^sup>*\<^sup>* st sb" .
      with u Inr x show ?thesis by simp
    qed
  qed
qed

lemma steps_delete_file: "store_step\<^sup>*\<^sup>* st (snd (delete_file e s fd st))"
proof (cases "get_fileId fd")
  case None
  then show ?thesis by (simp add: delete_file_def)
next
  case (Some i)
  note i = Some
  show ?thesis
  proof (cases "file_findFirst st i s")
    case None
    with i show ?thesis by (simp add: delete_file_def)
  next
    case (Some r)
    let ?sa = "case deleteFile e (path r) st of Inl err \<Rightarrow> st | Inr st' \<Rightarrow> st'"
    have sa: "store_step\<^sup>*\<^sup>* st ?sa"
    proof (cases "deleteFile e (path r) st")
      case (Inl err)
      then show ?thesis by simp
    next
      case (Inr sc)
      from steps_frame[OF deleteFile_frame(1,2)[OF Inr]] Inr show ?thesis by simp
    qed
    show ?thesis
    proof (cases "file_delete i ?sa")
      case (Inl err)
      with Some i sa show ?thesis by (simp add: delete_file_def Let_def)
    next
      case (Inr sb)
      from steps_then[OF sa store_step.file_deleted[OF Inr]] have "store_step\<^sup>*\<^sup>* st sb" .
      with Some i Inr show ?thesis by (simp add: delete_file_def Let_def)
    qed
  qed
qed

lemma steps_bulk_delete: "store_step\<^sup>*\<^sup>* st (snd (bulk_delete e s fd st))"
proof (cases "get_itemIds fd")
  case None
  then show ?thesis by (simp add: bulk_delete_def)
next
  case (Some ids)
  let ?sa = "bulk_delete_files e s (filter (startsWith ''file-'') ids) st"
  let ?r = "bulk_delete_folders e s (filter (startsWith ''folder-'') ids) ?sa"
  from rtranclp_trans[OF steps_bulk_delete_files steps_bulk_delete_folders]
  have "store_step\<^sup>*\<^sup>* st (snd ?r)" .
  moreover have "snd (bulk_delete e s fd st) = snd ?r"
    using Some by (cases ?r; cases "fst ?r") (simp_all add: bulk_delete_def Let_def)
  ultimately show ?thesis by simp
qed

lemma steps_move_file: "store_step\<^sup>*\<^sup>* st (snd (move_file e s fd st))"
proof (cases "get_fileId fd")
  case None
  then show ?thesis by (simp add: move_file_def Let_def)
next
  case (Some i)
  note i = Some
  show ?thesis
  proof (cases "file_findFirst st i s")
    case None
    with i show ?thesis by (simp add: move_file_def Let_def)
  next
    case (Some r)
    show ?thesis
    proof (cases "file_update e i (or_null (get_folderId fd)) st")
      case (Inl err)
      with Some i show ?thesis by (simp add: move_file_def Let_def)
    next
      case (Inr sb)
      from r_into_rtranclp[of store_step, OF store_step.file_updated[OF Inr]]
      have "store_step\<^sup>*\<^sup>* st sb" .
      with Some i Inr show ?thesis by (simp add: move_file_def Let_def)
    qed
  qed
qed

lemma steps_bulk_move: "store_step\<^sup>*\<^sup>* st (snd (bulk_move e s fd st))"
proof (cases "get_fileIds fd")
  case None
  then show ?thesis by (simp add: bulk_move_def Let_def)
next
  case (Some ids)
  let ?r = "bulk_move_files e (or_null (get_folderId fd)) ids st"
  have "snd (bulk_move e s fd st) = snd ?r"
    using Some by (cases ?r; cases "fst ?r") (simp_all add: bulk_move_def Let_def)
  with steps_bulk_move_files[of st e "or_null (get_folderId fd)" ids] show ?thesis by simp
qed

lemma steps_action: "store_step\<^sup>*\<^sup>* st (snd (action e s fd st))"
proof -
  let ?st = "ensureUploadDir st"
  have "store_step\<^sup>*\<^sup>* ?st (snd (action e s fd st))"
    unfolding action_def Let_def
    using steps_create_folder[of ?st] steps_delete_folder[of ?st] steps_upload_file[of ?st]
      steps_delete_file[of ?st] steps_bulk_delete[of ?st] steps_move_file[of ?st]
      steps_bulk_move[of ?st]
    by simp
  with steps_ensure[of st] show ?thesis by (rule rtranclp_trans)
qed

lemma steps_invariant:
  assumes "store_step\<^sup>*\<^sup>* sa sb" and "P sa" and "\<And>x y. store_step x y \<Longrightarrow> P x \<Longrightarrow> P y"
  shows "P sb"
  using assms(1,2) by (induction rule: rtranclp_induct) (auto intro: assms(3))

section \<open>The primary keys are kept\<close>

lemma map_file_id_update:
  "map file_id (map (\<lambda>f. if file_id f = i then f\<lparr>folderId := fo, updatedAt := t\<rparr> else f) fs)
     = map file_id fs"
  by (induction fs) simp_all

lemma pkey_ok_step: "store_step sa sb \<Longrightarrow> pkey_ok sa \<Longrightarrow> pkey_ok sb"
proof (induction rule: store_step.induct)
  case (frame sb sa)
  then show ?case by (simp add: pkey_ok_def)
next
  case (file_deleted i sa sb)
  from file_deleted(1) have "files sb = filter (\<lambda>f. file_id f \<noteq> i) (files sa)"
    "folders sb = folders sa"
    by (auto simp: file_delete_def split: if_splits)
  with file_deleted(2) show ?case by (simp add: pkey_ok_def distinct_map_filter)
next
  case (folder_deleted i sa sb)
  from folder_deleted(1) have "files sb = filter (\<lambda>f. folderId f \<noteq> Some i) (files sa)"
    "folders sb = filter (\<lambda>g. folder_id g \<noteq> i) (folders sa)"
    by (auto simp: folder_delete_def split: if_splits)
  with folder_deleted(2) show ?case by (simp add: pkey_ok_def distinct_map_filter)
next
  case (file_updated e i fo sa sb)
  from file_update_files[OF file_updated(1)]
  have "map file_id (files sb) = map file_id (files sa)"
    by (simp only: map_file_id_update)
  with file_update_frame(1)[OF file_updated(1)] file_updated(2)
  show ?case by (simp add: pkey_ok_def)
next
  case (file_created e fn orig mt sz p s fo sa r sb)
  note c = file_created(1)
  from file_create_Inr(1)[OF c] have "file_id r = new_id e" by simp
  with file_create_Inr(4)[OF c] have "file_id r \<notin> set (map file_id (files sa))"
    by (simp add: file_exists_def)
  with file_create_frame(2,3)[OF c] file_created(2) show ?case
    by (simp add: pkey_ok_def)
next
  case (folder_created e nm s sa g sb)
  from folder_created(1) have "folders sb = folders sa @ [g]" "files sb = files sa"
    "folder_id g \<notin> set (map folder_id (folders sa))"
    by (auto simp: folder_create_def folder_exists_def Let_def split: if_splits)
  with folder_created(2) show ?case by (simp add: pkey_ok_def)
qed

lemma pkey_ok_action: "pkey_ok st \<Longrightarrow> pkey_ok (snd (action e s fd st))"
proof -
  assume "pkey_ok st"
  with steps_action[of st e s fd] show ?thesis
    by (rule steps_invariant[where P = pkey_ok]) (rule pkey_ok_step)
qed

section \<open>The folder of a file\<close>

lemma fk_ok_iff:
  "fk_ok st \<longleftrightarrow> (\<forall>f\<in>set (files st). \<forall>i. folderId f = Some i \<longrightarrow> i \<in> folder_id ` set (folders st))"
  by (auto simp: fk_ok_def list_all_iff fkey_ok_def folder_exists_def split: option.splits)

lemma fk_ok_frame: "files sb = files sa \<Longrightarrow> folders sb = folders sa \<Longrightarrow> fk_ok sb = fk_ok sa"
  by (simp add: fk_ok_iff)

lemma fk_ok_ensure: "fk_ok (ensureUploadDir st) = fk_ok st"
  by (rule fk_ok_frame) (simp_all add: ensureUploadDir_frame)

lemma fk_ok_deleteFile: "deleteFile e p st = Inr sb \<Longrightarrow> fk_ok sb = fk_ok st"
  by (rule fk_ok_frame) (simp_all add: deleteFile_frame)

lemma fk_ok_delete_blobs: "fk_ok (delete_blobs e fs st) = fk_ok st"
  using delete_blobs_frame[of e fs st] by (intro fk_ok_frame) simp_all

lemma fk_ok_saveFile: "saveFile e f st = (res, sb) \<Longrightarrow> fk_ok sb = fk_ok st"
  by (rule fk_ok_frame)
    (auto simp: saveFile_def writeFile_def Let_def ensureUploadDir_frame split: if_splits)

lemma fk_ok_file_delete: "file_delete i st = Inr sb \<Longrightarrow> fk_ok st \<Longrightarrow> fk_ok sb"
  by (auto simp: file_delete_def fk_ok_iff split: if_splits)

lemma fk_ok_folder_delete: "folder_delete i st = Inr sb \<Longrightarrow> fk_ok st \<Longrightarrow> fk_ok sb"
proof -
  assume d: "folder_delete i st = Inr sb" and ok: "fk_ok st"
  from d have fs: "files sb = filter (\<lambda>f. folderId f \<noteq> Some i) (files st)"
    and gs: "folders sb = filter (\<lambda>g. folder_id g \<noteq> i) (folders st)"
    by (auto simp: folder_delete_def split: if_splits)
  show "fk_ok sb"
    unfolding fk_ok_iff
  proof (intro ballI allI impI)
    fix f j assume f: "f \<in> set (files sb)" "folderId f = Some j"
    with fs have "f \<in> set (files st)" "j \<noteq> i" by auto
    with ok f(2) obtain g where "g \<in> set (folders st)" "folder_id g = j"
      unfolding fk_ok_iff by blast
    with \<open>j \<noteq> i\<close> gs have "g \<in> set (folders sb)" by simp
    with \<open>folder_id g = j\<close> show "j \<in> folder_id ` set (folders sb)" by blast
  qed
qed

lemma fk_ok_file_update: "file_update e i fo st = Inr sb \<Longrightarrow> fk_ok st \<Longrightarrow> fk_ok sb"
proof -
  assume u: "file_update e i fo st = Inr sb" and ok: "fk_ok st"
  from u have fo: "fkey_ok st fo" by (simp add: file_update_def split: if_splits)
  note fs = file_update_files[OF u] and gs = file_update_frame(1)[OF u]
  show "fk_ok sb"
    unfolding fk_ok_iff
  proof (intro ballI allI impI)
    fix f j assume f: "f \<in> set (files sb)" "folderId f = Some j"
    from f(1) fs obtain r where r: "r \<in> set (files st)"
      and fr: "f = (if file_id r = i then r\<lparr>folderId := fo, updatedAt := now e\<rparr> else r)"
      by auto
    show "j \<in> folder_id ` set (folders sb)"
    proof (cases "file_id r = i")
      case True
      with fr f(2) have "fo = Some j" by simp
      with fo gs show ?thesis by (simp add: fkey_ok_def folder_exists_def)
    next
      case False
      with fr have "f = r" by simp
      with r f(2) ok gs show ?thesis unfolding fk_ok_iff by auto
    qed
  qed
qed

lemma fk_ok_file_create:
  "file_create e fn orig mt sz p s fo st = Inr (r, sb) \<Longrightarrow> fk_ok st \<Longrightarrow> fk_ok sb"
proof -
  assume c: "file_create e fn orig mt sz p s fo st = Inr (r, sb)" and ok: "fk_ok st"
  note fr = file_create_frame[OF c]
  from file_create_Inr(1,3)[OF c] have "folderId r = fo" "fkey_ok st fo" by simp_all
  then have "\<forall>j. folderId r = Some j \<longrightarrow> j \<in> folder_id ` set (folders st)"
    by (auto simp: fkey_ok_def folder_exists_def)
  with ok fr(2,3) show "fk_ok sb" unfolding fk_ok_iff by auto
qed

lemma fk_ok_folder_create:
  "folder_create e nm s st = Inr (g, sb) \<Longrightarrow> fk_ok st \<Longrightarrow> fk_ok sb"
  by (auto simp: folder_create_def Let_def fk_ok_iff split: if_splits)


lemma fk_ok_step: "store_step sa sb \<Longrightarrow> fk_ok sa \<Longrightarrow> fk_ok sb"
proof (induction rule: store_step.induct)
  case (frame sb sa)
  from fk_ok_frame[OF frame(1,2)] frame(3) show ?case by simp
next
  case (file_deleted i sa sb)
  then show ?case by (rule fk_ok_file_delete)
next
  case (folder_deleted i sa sb)
  then show ?case by (rule fk_ok_folder_delete)
next
  case (file_updated e i fo sa sb)
  then show ?case by (rule fk_ok_file_update)
next
  case (file_created e fn orig mt sz p s fo sa r sb)
  then show ?case by (rule fk_ok_file_create)
next
  case (folder_created e nm s sa g sb)
  then show ?case by (rule fk_ok_folder_create)
qed

text \<open>
  C2, as the code has it. Every non-null folder reference refers to a row of the table
  of folders, and every action keeps it so: \<^verbatim>\<open>upload\<close>, \<^verbatim>\<open>move-file\<close> and
  \<^verbatim>\<open>bulk-move\<close> attach a file only to a folder that exists (the foreign key refuses
  any other). The tenant of that folder is not looked at.
\<close>

theorem folder_reference_exists:
  "fk_ok st \<Longrightarrow> fk_ok (snd (action e s fd st))"
proof -
  assume "fk_ok st"
  with steps_action[of st e s fd] show ?thesis
    by (rule steps_invariant[where P = fk_ok]) (rule fk_ok_step)
qed

theorem folder_reference_exists_witness:
  "fk_ok state1
   \<and> fst (action env1 ''shop-2''
        (no_form\<lparr>get_intent := Some ''upload'', get_file := Some notes_txt, get_folderId := Some ''F1''\<rparr>)
        state1) = Inr (SuccessFile (X2\<lparr>shop := ''shop-2'', folderId := Some ''F1''\<rparr>))
   \<and> fk_ok (snd (action env1 ''shop-2''
        (no_form\<lparr>get_intent := Some ''upload'', get_file := Some notes_txt, get_folderId := Some ''F1''\<rparr>)
        state1))
   \<and> fst (action env1 ''shop-1''
        (no_form\<lparr>get_intent := Some ''move-file'', get_fileId := Some ''X1'', get_folderId := Some ''F9''\<rparr>)
        state1) = Inl StoreError
   \<and> fk_ok (snd (action env1 ''shop-1''
        (no_form\<lparr>get_intent := Some ''move-file'', get_fileId := Some ''X1'', get_folderId := Some ''F9''\<rparr>)
        state1))"
proof -
  have ok: "fk_ok state1" by (simp add: fk_ok_def fkey_ok_def folder_exists_def scenario_defs)
  have up: "fst (action env1 ''shop-2''
        (no_form\<lparr>get_intent := Some ''upload'', get_file := Some notes_txt, get_folderId := Some ''F1''\<rparr>)
        state1) = Inr (SuccessFile (X2\<lparr>shop := ''shop-2'', folderId := Some ''F1''\<rparr>))"
    by (simp add: model_defs scenario_defs toString.simps)
  have mv: "fst (action env1 ''shop-1''
        (no_form\<lparr>get_intent := Some ''move-file'', get_fileId := Some ''X1'', get_folderId := Some ''F9''\<rparr>)
        state1) = Inl StoreError"
    by (simp add: model_defs scenario_defs)
  from ok up mv folder_reference_exists[OF ok, of env1 "''shop-2''"]
    folder_reference_exists[OF ok, of env1 "''shop-1''"]
  show ?thesis by simp
qed

text \<open>
  C2, as stated, fails. In the scenario every file is in a folder of its own tenant.
  \<^verbatim>\<open>shop-2\<close> uploads a file with the identifier of \<^verbatim>\<open>F1\<close>, a folder of \<^verbatim>\<open>shop-1\<close>: the
  upload succeeds and the table now holds a file of \<^verbatim>\<open>shop-2\<close> in a folder of
  \<^verbatim>\<open>shop-1\<close>.
\<close>

theorem folder_same_tenant_counterexample:
  "same_tenant state1
   \<and> folder_shop F1 = ''shop-1''
   \<and> files (snd (action env1 ''shop-2''
        (no_form\<lparr>get_intent := Some ''upload'', get_file := Some notes_txt, get_folderId := Some ''F1''\<rparr>)
        state1)) = [X1, X2\<lparr>shop := ''shop-2'', folderId := Some ''F1''\<rparr>]
   \<and> \<not> same_tenant (snd (action env1 ''shop-2''
        (no_form\<lparr>get_intent := Some ''upload'', get_file := Some notes_txt, get_folderId := Some ''F1''\<rparr>)
        state1))"
  by (simp add: same_tenant_def model_defs scenario_defs toString.simps)

section \<open>Bulk delete\<close>


lemma file_findFirst_subset:
  "set (files sb) \<subseteq> set (files sa) \<Longrightarrow> file_findFirst sa i s = None \<Longrightarrow> file_findFirst sb i s = None"
  unfolding file_findFirst_None by blast

lemma bulk_delete_files_subset: "set (files (bulk_delete_files e s xs st)) \<subseteq> set (files st)"
proof (induction xs arbitrary: st)
  case Nil
  show ?case by simp
next
  case (Cons x xs)
  let ?i = "replace ''file-'' [] x"
  show ?case
  proof (cases "file_findFirst st ?i s")
    case None
    with Cons show ?thesis by (simp add: Let_def)
  next
    case (Some r)
    show ?thesis
    proof (cases "deleteFile e (path r) st")
      case (Inl err)
      with Some Cons show ?thesis by (simp add: Let_def)
    next
      case (Inr sa)
      note sa = deleteFile_frame(1)[OF Inr]
      show ?thesis
      proof (cases "file_delete ?i sa")
        case (Inl err)
        with Some Inr Cons[of sa] sa show ?thesis by (simp add: Let_def)
      next
        case (Inr sb)
        then have "files sb = filter (\<lambda>f. file_id f \<noteq> ?i) (files sa)"
          by (auto simp: file_delete_def split: if_splits)
        with sa have "set (files sb) \<subseteq> set (files st)" by auto
        with Cons[of sb] have "set (files (bulk_delete_files e s xs sb)) \<subseteq> set (files st)"
          by blast
        with Some \<open>deleteFile e (path r) st = Inr sa\<close> Inr show ?thesis by (simp add: Let_def)
      qed
    qed
  qed
qed

lemma bulk_delete_folders_result:
  "fst (bulk_delete_folders e s xs st) = None
   \<and> set (files (snd (bulk_delete_folders e s xs st))) \<subseteq> set (files st)"
proof (induction xs arbitrary: st)
  case Nil
  show ?case by simp
next
  case (Cons x xs)
  let ?i = "replace ''folder-'' [] x"
  show ?case
  proof (cases "folder_findFirst st ?i s")
    case None
    with Cons show ?thesis by (simp add: Let_def)
  next
    case (Some g)
    let ?sa = "delete_blobs e (files_of st g) st"
    have fr: "files ?sa = files st" "folders ?sa = folders st"
      using delete_blobs_frame[of e "files_of st g" st] by simp_all
    from folder_findFirst_Some[OF Some] have "g \<in> set (folders st)" "folder_id g = ?i"
      by simp_all
    from imageI[OF this(1), of folder_id] this(2)
    have "?i \<in> folder_id ` set (folders st)" by simp
    with fr have "folder_exists ?sa ?i" by (simp add: folder_exists_def)
    from folder_delete_Inr[OF this] obtain sb where
      sb: "folder_delete ?i ?sa = Inr sb"
      and fs: "files sb = filter (\<lambda>f. folderId f \<noteq> Some ?i) (files ?sa)"
      by simp
    from fs fr have "set (files sb) \<subseteq> set (files st)" by auto
    with Cons[of sb] have "fst (bulk_delete_folders e s xs sb) = None"
      "set (files (snd (bulk_delete_folders e s xs sb))) \<subseteq> set (files st)"
      by auto
    with Some sb show ?thesis by (simp add: Let_def)
  qed
qed

lemma deleteFile_no_fault:
  "\<not> unlink_fails e p \<Longrightarrow> \<exists>sa. deleteFile e p st = Inr sa \<and> files sa = files st"
  by (simp add: deleteFile_def unlink_def)

lemma bulk_delete_files_removes:
  assumes nf: "\<forall>p. \<not> unlink_fails e p"
  shows "''file-'' @ i \<in> set xs \<Longrightarrow> file_findFirst (bulk_delete_files e s xs st) i s = None"
proof (induction xs arbitrary: st)
  case Nil
  then show ?case by simp
next
  case (Cons x xs)
  let ?j = "replace ''file-'' [] x"
  have later: "file_findFirst (bulk_delete_files e s xs sb) i s = None"
    if "''file-'' @ i \<in> set xs \<or> file_findFirst sb i s = None" for sb
    using that
  proof
    assume "''file-'' @ i \<in> set xs"
    then show ?thesis by (rule Cons.IH)
  next
    assume "file_findFirst sb i s = None"
    with bulk_delete_files_subset[of e s xs sb] show ?thesis by (rule file_findFirst_subset)
  qed
  show ?case
  proof (cases "file_findFirst st ?j s")
    case None
    have "''file-'' @ i \<in> set xs \<or> file_findFirst st i s = None"
    proof (cases "x = ''file-'' @ i")
      case True
      with None show ?thesis by (simp only: replace_prefix) simp
    next
      case False
      with Cons.prems show ?thesis by simp
    qed
    from later[OF this] None show ?thesis by (simp add: Let_def)
  next
    case (Some r)
    from deleteFile_no_fault[of e "path r" st] nf obtain sa where
      sa: "deleteFile e (path r) st = Inr sa" "files sa = files st"
      by blast
    from file_findFirst_Some[OF Some] have "r \<in> set (files st)" "file_id r = ?j" by simp_all
    from imageI[OF this(1), of file_id] this(2)
    have "?j \<in> file_id ` set (files st)" by simp
    with sa(2) have "file_exists sa ?j" by (simp add: file_exists_def)
    from file_delete_Inr[OF this] obtain sb where
      sb: "file_delete ?j sa = Inr sb" "files sb = filter (\<lambda>f. file_id f \<noteq> ?j) (files st)"
      using sa(2) by simp
    have "''file-'' @ i \<in> set xs \<or> file_findFirst sb i s = None"
    proof (cases "x = ''file-'' @ i")
      case True
      then have "?j = i" by (simp only: replace_prefix)
      with sb(2) have "file_findFirst sb i s = None" by (simp add: file_findFirst_None)
      then show ?thesis ..
    next
      case False
      with Cons.prems show ?thesis by simp
    qed
    from later[OF this] Some sa(1) sb(1) show ?thesis by (simp add: Let_def)
  qed
qed

text \<open>
  When \<^verbatim>\<open>unlink\<close> does not raise, a bulk delete reports success and every file it
  names is gone for the tenant, whatever else the request names: identifiers that are
  absent are skipped.
\<close>

lemma bulk_delete_without_fault:
  assumes "\<forall>p. \<not> unlink_fails e p" and "get_intent fd = Some ''bulk-delete''"
    and "get_itemIds fd = Some ids" and "''file-'' @ i \<in> set ids"
  shows "fst (action e s fd st) = Inr SuccessReply
       \<and> file_findFirst (snd (action e s fd st)) i s = None"
proof -
  let ?st = "ensureUploadDir st"
  let ?sa = "bulk_delete_files e s (filter (startsWith ''file-'') ids) ?st"
  let ?r = "bulk_delete_folders e s (filter (startsWith ''folder-'') ids) ?sa"
  from assms(4) startsWith_append[of "''file-''" i]
  have "''file-'' @ i \<in> set (filter (startsWith ''file-'') ids)"
    by simp
  from bulk_delete_files_removes[OF assms(1) this] have "file_findFirst ?sa i s = None" .
  with bulk_delete_folders_result[of e s "filter (startsWith ''folder-'') ids" ?sa]
  have r: "fst ?r = None" "file_findFirst (snd ?r) i s = None"
    by (auto intro: file_findFirst_subset)
  from r(1) assms(3) have "bulk_delete e s fd ?st = (Inr SuccessReply, snd ?r)"
    by (cases ?r) (simp add: bulk_delete_def Let_def)
  with assms(2) r(2) show ?thesis by (simp add: action_intent)
qed

text \<open>
  C8. \<^verbatim>\<open>shop-1\<close> asks for a bulk delete of its file \<^verbatim>\<open>X1\<close> and of an identifier that
  is gone, while \<^verbatim>\<open>unlink\<close> raises. The action reports success, and the row of \<^verbatim>\<open>X1\<close>
  is still in the table: in the first loop of \<^verbatim>\<open>bulk-delete\<close> the exception of
  \<^verbatim>\<open>deleteFile\<close> skips \<^verbatim>\<open>prisma.file.delete\<close>. The single \<^verbatim>\<open>delete\<close> of the same file
  in the same environment deletes the row, and so does the bulk delete when \<^verbatim>\<open>unlink\<close>
  does not raise.
\<close>

theorem bulk_delete_keeps_row_when_unlink_raises:
  "action (env1\<lparr>unlink_fails := (\<lambda>p. True)\<rparr>) ''shop-1''
      (no_form\<lparr>get_intent := Some ''bulk-delete'', get_itemIds := Some [''file-X1'', ''file-GONE'']\<rparr>)
      state1 = (Inr SuccessReply, state1)
   \<and> files state1 = [X1]
   \<and> files (snd (action (env1\<lparr>unlink_fails := (\<lambda>p. True)\<rparr>) ''shop-1''
      (no_form\<lparr>get_intent := Some ''delete'', get_fileId := Some ''X1''\<rparr>) state1)) = []
   \<and> fst (action env1 ''shop-1''
      (no_form\<lparr>get_intent := Some ''bulk-delete'', get_itemIds := Some [''file-X1'', ''file-GONE'']\<rparr>)
      state1) = Inr SuccessReply
   \<and> files (snd (action env1 ''shop-1''
      (no_form\<lparr>get_intent := Some ''bulk-delete'', get_itemIds := Some [''file-X1'', ''file-GONE'']\<rparr>)
      state1)) = []"
  by (simp add: model_defs scenario_defs)

section \<open>Tenant isolation\<close>
















end
